theory Spec2Isabelle
  imports Main "HOL-Library.AList"
begin

section \<open>Form model: values, nodes and the object store\<close>

text \<open>
  The development embeds \<^verbatim>\<open>modules/angular2/src/forms/model.ts\<close>: the classes
  \<^verbatim>\<open>AbstractControl\<close>, \<^verbatim>\<open>Control\<close>, \<^verbatim>\<open>ControlGroup\<close> and \<^verbatim>\<open>ControlArray\<close>.

  Objects live in a store (a list of nodes; the address of an object is its index, a new
  object gets the next free index). A reference to a control is an address, so that the
  parent back-reference and the sharing of a child between containers are as in the source.
  A JavaScript value of type \<^verbatim>\<open>any\<close> is a \<open>jsval\<close> (the model never computes with
  numbers, which are integers here); a \<^verbatim>\<open>StringMap\<close> is an association list with distinct
  keys in enumeration order. A field that the constructor has not assigned yet is
  \<^verbatim>\<open>undefined\<close>: \<open>JUndefined\<close> for the value, \<open>None\<close> for status, errors and parent.
  The children object of a keyed container is read and written by the file with the
  bracket operator of JavaScript, which follows the prototype of the object:
  \<open>n_controls_proto\<close> is that prototype, \<open>None\<close> for \<^verbatim>\<open>Object.prototype\<close> and \<open>Some c\<close> once
  the control \<open>c\<close> has been assigned to the name \<^verbatim>\<open>__proto__\<close>.

  Two collaborators are outside the file. A validator is a function stored in the node
  and called with the node; here the node holds a reference \<open>vref\<close> and the
  interpretation of references (\<open>validators\<close>) is a parameter of every operation: the
  validator reads the store and the address of its node and returns an error map or
  nothing, without changing the store. The change channel of a node is an
  \<^verbatim>\<open>EventEmitter\<close>; \<^verbatim>\<open>ObservableWrapper.callNext\<close> is recorded in the log \<open>emitted\<close>
  as the pair of the emitting node and the value sent, and subscribers do not call back
  into the model.
\<close>

type_synonym addr = nat

datatype jsval =
    JUndefined
  | JNull
  | JBool bool
  | JNum int
  | JStr string
  | JArr "jsval list"
  | JObj "(string \<times> jsval) list"

type_synonym errors = "(string \<times> jsval) list"

datatype vref = NullValidator | RequiredValidator | GroupValidator | ArrayValidator | Custom nat

datatype kind =
    Control
  | ControlGroup "(string \<times> addr) list" "(string \<times> bool) list"
  | ControlArray "addr list"

record node =
  n_value :: jsval
  n_status :: "string option"
  n_errors :: "errors option"
  n_pristine :: bool
  n_parent :: "addr option"
  n_validator :: vref
  n_kind :: kind
  n_controls_proto :: "addr option"

type_synonym heap = "node list"

type_synonym validators = "vref \<Rightarrow> heap \<Rightarrow> addr \<Rightarrow> errors option"

record state =
  heap :: heap
  emitted :: "(addr \<times> jsval) list"

datatype error = TypeError

datatype outcome = Returns state | Raises error state

fun state_of :: "outcome \<Rightarrow> state" where
  "state_of (Returns s) = s"
| "state_of (Raises e s) = s"

definition VALID :: string where
  "VALID = ''VALID''"

definition INVALID :: string where
  "INVALID = ''INVALID''"

definition isPresent :: "'a option \<Rightarrow> bool" where
  "isPresent x = (case x of None \<Rightarrow> False | Some y \<Rightarrow> True)"

definition init_state :: state where
  "init_state = \<lparr>heap = [], emitted = []\<rparr>"

text \<open>In-place change of the object at an address (nothing happens at a free address).\<close>

definition modify :: "addr \<Rightarrow> (node \<Rightarrow> node) \<Rightarrow> heap \<Rightarrow> heap" where
  "modify a f h = h[a := f (h ! a)]"

definition is_container :: "kind \<Rightarrow> bool" where
  "is_container k = (case k of Control \<Rightarrow> False | ControlGroup cs os \<Rightarrow> True | ControlArray cs \<Rightarrow> True)"

definition is_array :: "kind \<Rightarrow> bool" where
  "is_array k = (case k of ControlArray cs \<Rightarrow> True | _ \<Rightarrow> False)"

definition children_of :: "kind \<Rightarrow> addr list" where
  "children_of k = (case k of Control \<Rightarrow> [] | ControlGroup cs os \<Rightarrow> map snd cs | ControlArray cs \<Rightarrow> cs)"

subsection \<open>Facade collections\<close>

text \<open>
  Modelled from the spec: \<^verbatim>\<open>StringMapWrapper\<close> and \<^verbatim>\<open>ListWrapper\<close> of
  \<^verbatim>\<open>angular2/src/facade/collection\<close> and \<^verbatim>\<open>StringWrapper.split\<close> of
  \<^verbatim>\<open>angular2/src/facade/lang\<close> are not part of the file. The children mapping and the
  optional flags are mappings from names (section 3 of the specification): assignment
  replaces the entry of a present key where it stands and appends a new key, deletion
  removes the entry, and enumeration follows the list. \<^verbatim>\<open>insert\<close> puts the child at the position and shifts the
  later children, \<^verbatim>\<open>removeAt\<close> removes the child at the position and shifts the later
  children down (section 4.4); positions are natural numbers, and a position past the end
  appends, respectively removes nothing. A path string is split at every \<^verbatim>\<open>/\<close> (section
  4.3). A mapping has the entries that were assigned to it and no others.
\<close>

definition StringMap_set :: "('k \<times> 'v) list \<Rightarrow> 'k \<Rightarrow> 'v \<Rightarrow> ('k \<times> 'v) list" where
  "StringMap_set m k v = AList.update k v m"

definition StringMap_delete :: "('k \<times> 'v) list \<Rightarrow> 'k \<Rightarrow> ('k \<times> 'v) list" where
  "StringMap_delete m k = AList.delete k m"

definition StringMap_contains :: "('k \<times> 'v) list \<Rightarrow> 'k \<Rightarrow> bool" where
  "StringMap_contains m k = isPresent (map_of m k)"

definition StringMap_get :: "('k \<times> 'v) list \<Rightarrow> 'k \<Rightarrow> 'v option" where
  "StringMap_get m k = map_of m k"

definition ListWrapper_insert :: "'a list \<Rightarrow> nat \<Rightarrow> 'a \<Rightarrow> 'a list" where
  "ListWrapper_insert xs i x = take i xs @ x # drop i xs"

definition ListWrapper_removeAt :: "'a list \<Rightarrow> nat \<Rightarrow> 'a list" where
  "ListWrapper_removeAt xs i = take i xs @ drop (Suc i) xs"

fun split_acc :: "string \<Rightarrow> string \<Rightarrow> string list" where
  "split_acc cur [] = [rev cur]"
| "split_acc cur (c # cs) =
     (if c = CHR ''/'' then rev cur # split_acc [] cs else split_acc (c # cur) cs)"

definition StringWrapper_split :: "string \<Rightarrow> string list" where
  "StringWrapper_split s = split_acc [] s"

subsection \<open>AbstractControl\<close>

text \<open>
  The two lines \<^verbatim>\<open>this._errors = this.validator(this); this._status =
  isPresent(this._errors) ? INVALID : VALID;\<close> stand in \<^verbatim>\<open>updateValidity\<close> and in the three
  \<^verbatim>\<open>_setValueErrorsStatus\<close>.
\<close>

definition setErrorsStatus :: "validators \<Rightarrow> addr \<Rightarrow> heap \<Rightarrow> heap" where
  "setErrorsStatus V a h =
     (let h1 = modify a (\<lambda>n. n\<lparr>n_errors := V (n_validator n) h a\<rparr>) h;
          h2 = modify a (\<lambda>n. n\<lparr>n_status :=
                  Some (if isPresent (n_errors n) then INVALID else VALID)\<rparr>) h1
      in h2)"

definition setParent :: "addr \<Rightarrow> addr \<Rightarrow> heap \<Rightarrow> heap" where
  "setParent a p h = modify a (\<lambda>n. n\<lparr>n_parent := Some p\<rparr>) h"

text \<open>
  \<^verbatim>\<open>updateValidity\<close> calls itself on the parent. The walk follows the parent references
  and does not return when they form a cycle, so the function is partial: \<open>None\<close> is a
  call that does not return.
\<close>

partial_function (option) updateValidity :: "validators \<Rightarrow> addr \<Rightarrow> state \<Rightarrow> outcome option" where
  "updateValidity V a s =
     (if a < length (heap s) then
        (let s1 = s\<lparr>heap := setErrorsStatus V a (heap s)\<rparr> in
         case n_parent (heap s1 ! a) of
           None \<Rightarrow> Some (Returns s1)
         | Some p \<Rightarrow> updateValidity V p s1)
      else Some (Raises TypeError s))"

declare updateValidity.simps [code]

subsection \<open>Containers: value aggregation and the upward walk\<close>

text \<open>
  \<^verbatim>\<open>_reduceChildren\<close> enumerates the own properties of the children object with
  \<^verbatim>\<open>StringMapWrapper.forEach\<close>, and \<^verbatim>\<open>_reduceValue\<close> assigns each of these names to a fresh
  object. The children object has no own property \<^verbatim>\<open>__proto__\<close> (lemma \<open>reachable_names_ok\<close>
  below), so every such assignment defines or overwrites an own property of the fresh
  object.
\<close>

definition priv_included :: "(string \<times> bool) list \<Rightarrow> string \<Rightarrow> bool" where
  "priv_included os controlName =
     (let isOptional = StringMap_contains os controlName in
      \<not> isOptional \<or> (case StringMap_get os controlName of None \<Rightarrow> False | Some b \<Rightarrow> b))"

definition priv_reduceChildren ::
  "heap \<Rightarrow> (string \<times> addr) list \<Rightarrow> (string \<times> bool) list \<Rightarrow> 'a \<Rightarrow> ('a \<Rightarrow> node \<Rightarrow> string \<Rightarrow> 'a) \<Rightarrow> 'a" where
  "priv_reduceChildren h cs os initValue fn =
     fold (\<lambda>(name, c) res. if priv_included os name then fn res (h ! c) name else res) cs initValue"

definition priv_reduceValue :: "heap \<Rightarrow> (string \<times> addr) list \<Rightarrow> (string \<times> bool) list \<Rightarrow> jsval" where
  "priv_reduceValue h cs os =
     JObj (priv_reduceChildren h cs os [] (\<lambda>acc control name. StringMap_set acc name (n_value control)))"

text \<open>
  \<^verbatim>\<open>ControlGroup._setValueErrorsStatus\<close> and \<^verbatim>\<open>ControlArray._setValueErrorsStatus\<close>, chosen
  by the class of the object. A \<^verbatim>\<open>Control\<close> has no method of this signature; the walk
  below never calls it on one.
\<close>

definition priv_setValueErrorsStatus :: "validators \<Rightarrow> addr \<Rightarrow> heap \<Rightarrow> heap" where
  "priv_setValueErrorsStatus V a h =
     (case n_kind (h ! a) of
        Control \<Rightarrow> h
      | ControlGroup cs os \<Rightarrow>
          setErrorsStatus V a (modify a (\<lambda>n. n\<lparr>n_value := priv_reduceValue h cs os\<rparr>) h)
      | ControlArray cs \<Rightarrow>
          setErrorsStatus V a (modify a (\<lambda>n. n\<lparr>n_value := JArr (map (\<lambda>c. n_value (h ! c)) cs)\<rparr>) h))"

text \<open>
  The body of \<^verbatim>\<open>_updateValue\<close> before \<^verbatim>\<open>this._updateParent()\<close>: recompute value, errors
  and status, clear \<^verbatim>\<open>_pristine\<close>, emit the value.
\<close>

definition recompute :: "validators \<Rightarrow> addr \<Rightarrow> state \<Rightarrow> state" where
  "recompute V a s =
     (let s1 = s\<lparr>heap := priv_setValueErrorsStatus V a (heap s)\<rparr>;
          s2 = s1\<lparr>heap := modify a (\<lambda>n. n\<lparr>n_pristine := False\<rparr>) (heap s1)\<rparr>;
          s3 = s2\<lparr>emitted := emitted s2 @ [(a, n_value (heap s2 ! a))]\<rparr>
      in s3)"

text \<open>
  \<^verbatim>\<open>_updateValue\<close> of a container, with \<^verbatim>\<open>_updateParent\<close> inlined (the two call each
  other). Calling it on an object that is not a container is the \<^verbatim>\<open>TypeError\<close> of
  JavaScript for a missing method.
\<close>

partial_function (option) priv_updateValue :: "validators \<Rightarrow> addr \<Rightarrow> state \<Rightarrow> outcome option" where
  "priv_updateValue V a s =
     (if a < length (heap s) \<and> is_container (n_kind (heap s ! a)) then
        (let s3 = recompute V a s in
         case n_parent (heap s3 ! a) of
           None \<Rightarrow> Some (Returns s3)
         | Some p \<Rightarrow> priv_updateValue V p s3)
      else Some (Raises TypeError s))"

declare priv_updateValue.simps [code]

definition priv_updateParent :: "validators \<Rightarrow> addr \<Rightarrow> state \<Rightarrow> outcome option" where
  "priv_updateParent V a s =
     (case n_parent (heap s ! a) of
        None \<Rightarrow> Some (Returns s)
      | Some p \<Rightarrow> priv_updateValue V p s)"

subsection \<open>Control\<close>

definition Control_setValueErrorsStatus :: "validators \<Rightarrow> addr \<Rightarrow> jsval \<Rightarrow> heap \<Rightarrow> heap" where
  "Control_setValueErrorsStatus V a v h =
     setErrorsStatus V a (modify a (\<lambda>n. n\<lparr>n_value := v\<rparr>) h)"

definition updateValue :: "validators \<Rightarrow> addr \<Rightarrow> jsval \<Rightarrow> state \<Rightarrow> outcome option" where
  "updateValue V a v s =
     (if a < length (heap s) \<and> n_kind (heap s ! a) = Control then
        (let s1 = s\<lparr>heap := Control_setValueErrorsStatus V a v (heap s)\<rparr>;
             s2 = s1\<lparr>heap := modify a (\<lambda>n. n\<lparr>n_pristine := False\<rparr>) (heap s1)\<rparr>;
             s3 = s2\<lparr>emitted := emitted s2 @ [(a, n_value (heap s2 ! a))]\<rparr>
         in priv_updateParent V a s3)
      else Some (Raises TypeError s))"

definition new_node :: "vref \<Rightarrow> kind \<Rightarrow> node" where
  "new_node vr k =
     \<lparr>n_value = JUndefined, n_status = None, n_errors = None, n_pristine = True,
      n_parent = None, n_validator = vr, n_kind = k, n_controls_proto = None\<rparr>"

definition new_Control :: "validators \<Rightarrow> jsval \<Rightarrow> vref \<Rightarrow> state \<Rightarrow> state" where
  "new_Control V v vr s =
     (let a = length (heap s);
          h1 = heap s @ [new_node vr Control]
      in s\<lparr>heap := Control_setValueErrorsStatus V a v h1\<rparr>)"

subsection \<open>ControlGroup\<close>

definition priv_setParentForControls :: "addr \<Rightarrow> addr list \<Rightarrow> heap \<Rightarrow> heap" where
  "priv_setParentForControls a cs h = fold (\<lambda>c. setParent c a) cs h"

text \<open>
  The constructor keeps the children object it is given: its own properties \<open>controls\<close>
  and its prototype \<open>proto\<close>. \<^verbatim>\<open>_setParentForControls\<close> enumerates the own properties.
\<close>

definition new_ControlGroup ::
  "validators \<Rightarrow> (string \<times> addr) list \<Rightarrow> addr option \<Rightarrow> (string \<times> bool) list option \<Rightarrow> vref \<Rightarrow>
   state \<Rightarrow> state" where
  "new_ControlGroup V controls proto optionals vr s =
     (let a = length (heap s);
          os = (case optionals of None \<Rightarrow> [] | Some m \<Rightarrow> m);
          h1 = heap s @ [(new_node vr (ControlGroup controls os))\<lparr>n_controls_proto := proto\<rparr>];
          h2 = priv_setParentForControls a (map snd controls) h1
      in s\<lparr>heap := priv_setValueErrorsStatus V a h2\<rparr>)"

definition set_controls :: "(string \<times> addr) list \<Rightarrow> node \<Rightarrow> node" where
  "set_controls cs n =
     (case n_kind n of ControlGroup cs0 os \<Rightarrow> n\<lparr>n_kind := ControlGroup cs os\<rparr> | _ \<Rightarrow> n)"

definition set_optionals :: "(string \<times> bool) list \<Rightarrow> node \<Rightarrow> node" where
  "set_optionals os n =
     (case n_kind n of ControlGroup cs os0 \<Rightarrow> n\<lparr>n_kind := ControlGroup cs os\<rparr> | _ \<Rightarrow> n)"

subsection \<open>The children object under the bracket operator\<close>

text \<open>
  \<^verbatim>\<open>addControl\<close> writes \<^verbatim>\<open>this.controls[name] = c\<close> and \<^verbatim>\<open>find\<close> reads \<^verbatim>\<open>v.controls[name]\<close>:
  both are the property access of JavaScript on the children object, not a function of
  \<^verbatim>\<open>StringMapWrapper\<close>. A read that finds no own property goes on along the prototype
  chain; a write that finds no own property looks for an accessor along the chain before it
  creates an own property.

  The result of a read is the control stored there (\<open>Ref\<close>), some other present value
  (\<open>NotControl\<close>: a function, a string, a boolean, an object that is not a control), or
  nothing (\<open>None\<close>: \<^verbatim>\<open>undefined\<close> or \<^verbatim>\<open>null\<close>, which \<^verbatim>\<open>isPresent\<close> does not tell apart).
\<close>

datatype jsref = Ref addr | NotControl

text \<open>The members of \<^verbatim>\<open>Object.prototype\<close> besides the accessor \<^verbatim>\<open>__proto__\<close>: all functions.\<close>

definition Object_prototype_names :: "string list" where
  "Object_prototype_names =
     [''constructor'', ''toString'', ''toLocaleString'', ''valueOf'', ''hasOwnProperty'',
      ''isPrototypeOf'', ''propertyIsEnumerable'', ''__defineGetter__'', ''__defineSetter__'',
      ''__lookupGetter__'', ''__lookupSetter__'']"

text \<open>
  A control as prototype. Its own properties are the fields the constructors assign; the
  methods are on the prototypes of its class and of \<^verbatim>\<open>AbstractControl\<close>; the accessors
  \<^verbatim>\<open>value\<close>, \<^verbatim>\<open>status\<close>, \<^verbatim>\<open>valid\<close>, \<^verbatim>\<open>errors\<close>, \<^verbatim>\<open>pristine\<close>, \<^verbatim>\<open>dirty\<close>, \<^verbatim>\<open>valueChanges\<close> (and
  \<^verbatim>\<open>length\<close> of a \<^verbatim>\<open>ControlArray\<close>) run with the object that was accessed as \<^verbatim>\<open>this\<close>; only
  \<^verbatim>\<open>value\<close> has a setter.
\<close>

definition field_names :: "kind \<Rightarrow> string list" where
  "field_names k =
     [''_value'', ''_status'', ''_errors'', ''_pristine'', ''_parent'', ''validator'', ''_valueChanges''] @
     (case k of
        Control \<Rightarrow> []
      | ControlGroup cs os \<Rightarrow> [''controls'', ''_optionals'']
      | ControlArray cs \<Rightarrow> [''controls''])"

definition method_names :: "kind \<Rightarrow> string list" where
  "method_names k =
     [''constructor'', ''setParent'', ''_updateParent'', ''updateValidity''] @
     (case k of
        Control \<Rightarrow> [''updateValue'', ''_setValueErrorsStatus'']
      | ControlGroup cs os \<Rightarrow>
          [''addControl'', ''removeControl'', ''include'', ''exclude'', ''contains'', ''find'',
           ''_setParentForControls'', ''_updateValue'', ''_setValueErrorsStatus'', ''_reduceValue'',
           ''_reduceChildren'', ''_included'']
      | ControlArray cs \<Rightarrow>
          [''at'', ''push'', ''insert'', ''removeAt'', ''_updateValue'', ''_setParentForControls'',
           ''_setValueErrorsStatus''])"

definition getter_only_names :: "kind \<Rightarrow> string list" where
  "getter_only_names k =
     [''status'', ''valid'', ''errors'', ''pristine'', ''dirty'', ''valueChanges''] @
     (case k of ControlArray cs \<Rightarrow> [''length''] | _ \<Rightarrow> [])"

definition control_field :: "heap \<Rightarrow> addr \<Rightarrow> string \<Rightarrow> jsref option" where
  "control_field h c name =
     (if name = ''_value'' then
        (if n_value (h ! c) = JUndefined \<or> n_value (h ! c) = JNull then None else Some NotControl)
      else if name = ''_status'' then map_option (\<lambda>x. NotControl) (n_status (h ! c))
      else if name = ''_errors'' then map_option (\<lambda>x. NotControl) (n_errors (h ! c))
      else if name = ''_parent'' then map_option Ref (n_parent (h ! c))
      else Some NotControl)"

text \<open>\<^verbatim>\<open>this[f]\<close> inside an accessor: \<^verbatim>\<open>this\<close> is the children object, whose prototype is \<open>c\<close>.\<close>

definition receiver_get :: "heap \<Rightarrow> (string \<times> addr) list \<Rightarrow> addr \<Rightarrow> string \<Rightarrow> jsref option" where
  "receiver_get h cs c f =
     (case map_of cs f of Some a \<Rightarrow> Some (Ref a) | None \<Rightarrow> control_field h c f)"

definition proto_get :: "heap \<Rightarrow> (string \<times> addr) list \<Rightarrow> addr option \<Rightarrow> string \<Rightarrow> jsref option" where
  "proto_get h cs proto name =
     (case proto of
        None \<Rightarrow>
          (if name \<in> set Object_prototype_names \<or> name = ''__proto__'' then Some NotControl
           else None)
      | Some c \<Rightarrow>
          (if name \<in> set (field_names (n_kind (h ! c))) then control_field h c name
           else if name \<in> set (method_names (n_kind (h ! c))) then Some NotControl
           else if name = ''value'' then receiver_get h cs c ''_value''
           else if name = ''status'' then receiver_get h cs c ''_status''
           else if name = ''errors'' then receiver_get h cs c ''_errors''
           else if name = ''pristine'' then receiver_get h cs c ''_pristine''
           else if name = ''valueChanges'' then receiver_get h cs c ''_valueChanges''
           else if name = ''valid'' \<or> name = ''dirty'' then Some NotControl
           else if name = ''length'' \<and> is_array (n_kind (h ! c)) then
             (case map_of cs ''controls'' of
                None \<Rightarrow> Some NotControl
              | Some a \<Rightarrow> (case n_kind (h ! a) of ControlArray l \<Rightarrow> Some NotControl | _ \<Rightarrow> None))
           else if name \<in> set Object_prototype_names then Some NotControl
           else if name = ''__proto__'' then Some (Ref c)
           else None))"

text \<open>\<^verbatim>\<open>controls[name]\<close>, read.\<close>

definition controls_get :: "heap \<Rightarrow> (string \<times> addr) list \<Rightarrow> addr option \<Rightarrow> string \<Rightarrow> jsref option" where
  "controls_get h cs proto name =
     (case map_of cs name of Some a \<Rightarrow> Some (Ref a) | None \<Rightarrow> proto_get h cs proto name)"

text \<open>
  \<^verbatim>\<open>controls[name] = d\<close>: the own properties and the prototype afterwards. An own property
  is overwritten where it stands. Otherwise the name \<^verbatim>\<open>__proto__\<close> reaches the setter of
  \<^verbatim>\<open>Object.prototype\<close>, which makes the object \<open>d\<close> the prototype and creates no property;
  the name \<^verbatim>\<open>value\<close> reaches the setter of a control prototype, which assigns \<^verbatim>\<open>_value\<close> on
  the children object; a name with a getter and no setter is refused (the body of a
  class is strict code: \<open>None\<close> is the \<^verbatim>\<open>TypeError\<close>); any other name becomes a new own
  property, the last in enumeration order.
\<close>

definition controls_assign ::
  "heap \<Rightarrow> (string \<times> addr) list \<Rightarrow> addr option \<Rightarrow> string \<Rightarrow> addr \<Rightarrow>
   ((string \<times> addr) list \<times> addr option) option" where
  "controls_assign h cs proto name d =
     (if map_of cs name \<noteq> None then Some (AList.update name d cs, proto)
      else if name = ''__proto__'' then Some (cs, Some d)
      else
        (case proto of
           None \<Rightarrow> Some (AList.update name d cs, proto)
         | Some c \<Rightarrow>
             (if name = ''value'' then Some (AList.update ''_value'' d cs, proto)
              else if name \<in> set (getter_only_names (n_kind (h ! c))) then None
              else Some (AList.update name d cs, proto))))"

text \<open>
  An object literal \<^verbatim>\<open>{k: v, ...}\<close> defines its entries as own properties in turn; the entry
  \<^verbatim>\<open>__proto__: v\<close> (a literal has at most one) defines no property and makes an object \<open>v\<close>
  the prototype, and is ignored when \<open>v\<close> is a boolean.
\<close>

definition object_literal :: "(string \<times> 'v) list \<Rightarrow> (string \<times> 'v) list" where
  "object_literal entries =
     fold (\<lambda>(k, v) m. if k = ''__proto__'' then m else AList.update k v m) entries []"

definition literal_proto :: "(string \<times> addr) list \<Rightarrow> addr option" where
  "literal_proto entries = map_of entries ''__proto__''"

subsection \<open>ControlGroup: the methods\<close>

definition addControl :: "addr \<Rightarrow> string \<Rightarrow> addr \<Rightarrow> state \<Rightarrow> outcome option" where
  "addControl g name c s =
     (case n_kind (heap s ! g) of
        ControlGroup cs os \<Rightarrow>
          (case controls_assign (heap s) cs (n_controls_proto (heap s ! g)) name c of
             None \<Rightarrow> Some (Raises TypeError s)
           | Some (cs', proto') \<Rightarrow>
               Some (Returns (s\<lparr>heap :=
                 modify g (\<lambda>n. (set_controls cs' n)\<lparr>n_controls_proto := proto'\<rparr>) (heap s)\<rparr>)))
      | _ \<Rightarrow> Some (Raises TypeError s))"

definition removeControl :: "addr \<Rightarrow> string \<Rightarrow> state \<Rightarrow> outcome option" where
  "removeControl g name s =
     (case n_kind (heap s ! g) of
        ControlGroup cs os \<Rightarrow>
          Some (Returns (s\<lparr>heap := modify g (set_controls (StringMap_delete cs name)) (heap s)\<rparr>))
      | _ \<Rightarrow> Some (Raises TypeError s))"

definition include_control :: "validators \<Rightarrow> addr \<Rightarrow> string \<Rightarrow> state \<Rightarrow> outcome option" where
  "include_control V g controlName s =
     (case n_kind (heap s ! g) of
        ControlGroup cs os \<Rightarrow>
          priv_updateValue V g
            (s\<lparr>heap := modify g (set_optionals (StringMap_set os controlName True)) (heap s)\<rparr>)
      | _ \<Rightarrow> Some (Raises TypeError s))"

definition exclude :: "validators \<Rightarrow> addr \<Rightarrow> string \<Rightarrow> state \<Rightarrow> outcome option" where
  "exclude V g controlName s =
     (case n_kind (heap s ! g) of
        ControlGroup cs os \<Rightarrow>
          priv_updateValue V g
            (s\<lparr>heap := modify g (set_optionals (StringMap_set os controlName False)) (heap s)\<rparr>)
      | _ \<Rightarrow> Some (Raises TypeError s))"

definition contains :: "heap \<Rightarrow> addr \<Rightarrow> string \<Rightarrow> bool" where
  "contains h g controlName =
     (case n_kind (h ! g) of
        ControlGroup cs os \<Rightarrow> StringMap_contains cs controlName \<and> priv_included os controlName
      | _ \<Rightarrow> False)"

text \<open>
  The reducer of \<^verbatim>\<open>find\<close>: \<^verbatim>\<open>v instanceof ControlGroup && isPresent(v.controls[name]) ?
  v.controls[name] : null\<close>; \<open>None\<close> is \<^verbatim>\<open>null\<close>. The result of \<^verbatim>\<open>find\<close> is whatever the last
  read returned.
\<close>

definition find_step :: "heap \<Rightarrow> jsref option \<Rightarrow> string \<Rightarrow> jsref option" where
  "find_step h v name =
     (case v of
        Some (Ref a) \<Rightarrow>
          (case n_kind (h ! a) of
             ControlGroup cs os \<Rightarrow>
               (if isPresent (controls_get h cs (n_controls_proto (h ! a)) name)
                then controls_get h cs (n_controls_proto (h ! a)) name else None)
           | _ \<Rightarrow> None)
      | _ \<Rightarrow> None)"

datatype path = PathString string | PathList "string list"

definition find :: "heap \<Rightarrow> addr \<Rightarrow> path \<Rightarrow> jsref option" where
  "find h g p =
     (let segs = (case p of PathString str \<Rightarrow> StringWrapper_split str | PathList l \<Rightarrow> l)
      in foldl (find_step h) (Some (Ref g)) segs)"

subsection \<open>ControlArray\<close>

definition new_ControlArray :: "validators \<Rightarrow> addr list \<Rightarrow> vref \<Rightarrow> state \<Rightarrow> state" where
  "new_ControlArray V controls vr s =
     (let a = length (heap s);
          h1 = heap s @ [new_node vr (ControlArray controls)];
          h2 = priv_setParentForControls a controls h1
      in s\<lparr>heap := priv_setValueErrorsStatus V a h2\<rparr>)"

definition set_list :: "addr list \<Rightarrow> node \<Rightarrow> node" where
  "set_list cs n = (case n_kind n of ControlArray cs0 \<Rightarrow> n\<lparr>n_kind := ControlArray cs\<rparr> | _ \<Rightarrow> n)"

definition push :: "validators \<Rightarrow> addr \<Rightarrow> addr \<Rightarrow> state \<Rightarrow> outcome option" where
  "push V arr c s =
     (case n_kind (heap s ! arr) of
        ControlArray cs \<Rightarrow>
          (let h1 = modify arr (set_list (cs @ [c])) (heap s);
               h2 = setParent c arr h1
           in priv_updateValue V arr (s\<lparr>heap := h2\<rparr>))
      | _ \<Rightarrow> Some (Raises TypeError s))"

definition insert_control :: "validators \<Rightarrow> addr \<Rightarrow> nat \<Rightarrow> addr \<Rightarrow> state \<Rightarrow> outcome option" where
  "insert_control V arr i c s =
     (case n_kind (heap s ! arr) of
        ControlArray cs \<Rightarrow>
          (let h1 = modify arr (set_list (ListWrapper_insert cs i c)) (heap s);
               h2 = setParent c arr h1
           in priv_updateValue V arr (s\<lparr>heap := h2\<rparr>))
      | _ \<Rightarrow> Some (Raises TypeError s))"

definition removeAt :: "validators \<Rightarrow> addr \<Rightarrow> nat \<Rightarrow> state \<Rightarrow> outcome option" where
  "removeAt V arr i s =
     (case n_kind (heap s ! arr) of
        ControlArray cs \<Rightarrow>
          (let h1 = modify arr (set_list (ListWrapper_removeAt cs i)) (heap s)
           in priv_updateValue V arr (s\<lparr>heap := h1\<rparr>))
      | _ \<Rightarrow> Some (Raises TypeError s))"

subsection \<open>The public operations\<close>

text \<open>
  A client calls the constructors and the public methods on references it holds. A
  reference always denotes an object of the store, and a method is called on an object
  of the class that declares it: a call outside of this is \<^verbatim>\<open>Raises TypeError\<close> with the
  store untouched. A constructor returns the next free address; the children and the
  optional flags of a \<^verbatim>\<open>ControlGroup\<close> are given as object literals.
\<close>

datatype op =
    NewControl jsval vref
  | NewControlGroup "(string \<times> addr) list" "(string \<times> bool) list option" vref
  | NewControlArray "addr list" vref
  | SetValue addr jsval
  | SetParent addr addr
  | UpdateValidity addr
  | UpdateValue addr jsval
  | AddControl addr string addr
  | RemoveControl addr string
  | Include addr string
  | Exclude addr string
  | Push addr addr
  | Insert addr nat addr
  | RemoveAt addr nat

definition refs_of :: "op \<Rightarrow> addr list" where
  "refs_of x =
     (case x of
        NewControl v vr \<Rightarrow> []
      | NewControlGroup cs os vr \<Rightarrow> map snd cs
      | NewControlArray cs vr \<Rightarrow> cs
      | SetValue a v \<Rightarrow> [a]
      | SetParent a p \<Rightarrow> [a, p]
      | UpdateValidity a \<Rightarrow> [a]
      | UpdateValue a v \<Rightarrow> [a]
      | AddControl g name c \<Rightarrow> [g, c]
      | RemoveControl g name \<Rightarrow> [g]
      | Include g name \<Rightarrow> [g]
      | Exclude g name \<Rightarrow> [g]
      | Push arr c \<Rightarrow> [arr, c]
      | Insert arr i c \<Rightarrow> [arr, c]
      | RemoveAt arr i \<Rightarrow> [arr])"

definition exec :: "validators \<Rightarrow> op \<Rightarrow> state \<Rightarrow> outcome option" where
  "exec V x s =
     (if list_all (\<lambda>a. a < length (heap s)) (refs_of x) then
        (case x of
           NewControl v vr \<Rightarrow> Some (Returns (new_Control V v vr s))
         | NewControlGroup cs os vr \<Rightarrow>
             Some (Returns (new_ControlGroup V (object_literal cs) (literal_proto cs)
                              (map_option object_literal os) vr s))
         | NewControlArray cs vr \<Rightarrow> Some (Returns (new_ControlArray V cs vr s))
         | SetValue a v \<Rightarrow> Some (Returns (s\<lparr>heap := modify a (\<lambda>n. n\<lparr>n_value := v\<rparr>) (heap s)\<rparr>))
         | SetParent a p \<Rightarrow> Some (Returns (s\<lparr>heap := setParent a p (heap s)\<rparr>))
         | UpdateValidity a \<Rightarrow> updateValidity V a s
         | UpdateValue a v \<Rightarrow> updateValue V a v s
         | AddControl g name c \<Rightarrow> addControl g name c s
         | RemoveControl g name \<Rightarrow> removeControl g name s
         | Include g name \<Rightarrow> include_control V g name s
         | Exclude g name \<Rightarrow> exclude V g name s
         | Push arr c \<Rightarrow> push V arr c s
         | Insert arr i c \<Rightarrow> insert_control V arr i c s
         | RemoveAt arr i \<Rightarrow> removeAt V arr i s)
      else Some (Raises TypeError s))"

text \<open>
  A client session: the operations one after the other; an operation that raises leaves
  the store as it was when the error occurred, and the client goes on.
\<close>

fun run :: "validators \<Rightarrow> op list \<Rightarrow> state \<Rightarrow> state option" where
  "run V [] s = Some s"
| "run V (x # xs) s = (case exec V x s of None \<Rightarrow> None | Some r \<Rightarrow> run V xs (state_of r))"

subsection \<open>Validators of the specification\<close>

text \<open>
  Modelled from the spec: \<^verbatim>\<open>./validators\<close> is not part of the file. \<open>NullValidator\<close> finds
  no error (the default of a \<^verbatim>\<open>Control\<close>); \<open>RequiredValidator\<close> is the validator
  "reject if null" of scenarios A and B; \<open>GroupValidator\<close> is the default policy of section
  4.3: the group is invalid iff at least one included child is invalid;
  \<open>ArrayValidator\<close> is the same policy over all children of an indexed container.
\<close>

definition invalid_node :: "node \<Rightarrow> bool" where
  "invalid_node n = (n_status n = Some INVALID)"

definition std_validators :: validators where
  "std_validators vr h a =
     (case vr of
        NullValidator \<Rightarrow> None
      | RequiredValidator \<Rightarrow>
          (if n_value (h ! a) = JNull then Some [(''required'', JBool True)] else None)
      | GroupValidator \<Rightarrow>
          (case n_kind (h ! a) of
             ControlGroup cs os \<Rightarrow>
               (if list_ex (\<lambda>(name, c). priv_included os name \<and> invalid_node (h ! c)) cs
                then Some [(''invalid'', JBool True)] else None)
           | _ \<Rightarrow> None)
      | ArrayValidator \<Rightarrow>
          (case n_kind (h ! a) of
             ControlArray cs \<Rightarrow>
               (if list_ex (\<lambda>c. invalid_node (h ! c)) cs
                then Some [(''invalid'', JBool True)] else None)
           | _ \<Rightarrow> None)
      | Custom i \<Rightarrow> None)"

section \<open>Notions used in the statements\<close>

text \<open>
  \<open>chain h a ps\<close>: following the parent references from \<open>a\<close> visits exactly the objects
  \<open>ps\<close>, in this order, and ends at an object without parent (the root).
\<close>

fun chain :: "heap \<Rightarrow> addr \<Rightarrow> addr list \<Rightarrow> bool" where
  "chain h a [] = (a < length h \<and> n_parent (h ! a) = None)"
| "chain h a (p # ps) = (a < length h \<and> n_parent (h ! a) = Some p \<and> chain h p ps)"

text \<open>
  The value a container assigns to itself in \<^verbatim>\<open>_setValueErrorsStatus\<close>, as the code computes
  it: the result of \<^verbatim>\<open>_reduceValue\<close> for a \<^verbatim>\<open>ControlGroup\<close>, the result of \<^verbatim>\<open>ListWrapper.map\<close>
  for a \<^verbatim>\<open>ControlArray\<close>. A \<^verbatim>\<open>Control\<close> has no such method.
\<close>

definition aggregate :: "heap \<Rightarrow> kind \<Rightarrow> jsval option" where
  "aggregate h k =
     (case k of
        Control \<Rightarrow> None
      | ControlGroup cs os \<Rightarrow> Some (priv_reduceValue h cs os)
      | ControlArray cs \<Rightarrow> Some (JArr (map (\<lambda>c. n_value (h ! c)) cs)))"

text \<open>
  The aggregation in the words of the specification (sections 3 and 4.3). A name is
  included when it is not present in the optional flags, or is present with the flag
  true. The value of a keyed container is the mapping from the name of each included
  child to the current value of that child, and an excluded child contributes nothing; the
  value of an indexed container is the sequence of the current values of its children. A
  leaf aggregates nothing.
\<close>

definition spec_included :: "(string \<times> bool) list \<Rightarrow> string \<Rightarrow> bool" where
  "spec_included optionalFlags name =
     (name \<notin> dom (map_of optionalFlags) \<or> map_of optionalFlags name = Some True)"

definition spec_aggregate :: "heap \<Rightarrow> kind \<Rightarrow> jsval option" where
  "spec_aggregate h k =
     (case k of
        Control \<Rightarrow> None
      | ControlGroup children optionalFlags \<Rightarrow>
          Some (JObj (map (\<lambda>(name, child). (name, n_value (h ! child)))
                       (filter (\<lambda>(name, child). spec_included optionalFlags name) children)))
      | ControlArray children \<Rightarrow> Some (JArr (map (\<lambda>child. n_value (h ! child)) children)))"

text \<open>The status that the source derives from an error map, and the nodes that carry it.\<close>

definition status_of :: "errors option \<Rightarrow> string option" where
  "status_of e = Some (if isPresent e then INVALID else VALID)"

definition status_ok :: "node \<Rightarrow> bool" where
  "status_ok n = (n_status n = status_of (n_errors n))"

text \<open>The first two lines of \<^verbatim>\<open>updateValidity\<close> on one object.\<close>

definition revalidate :: "validators \<Rightarrow> addr \<Rightarrow> state \<Rightarrow> state" where
  "revalidate V a s = s\<lparr>heap := setErrorsStatus V a (heap s)\<rparr>"

text \<open>
  What every public operation keeps between the store before and the store after: no
  object disappears, no object becomes pristine again, a status derived from the errors
  stays derived from the errors, and a new object has such a status.
\<close>

definition evolves :: "heap \<Rightarrow> heap \<Rightarrow> bool" where
  "evolves h h' =
     (length h \<le> length h' \<and>
      (\<forall>b<length h'.
         (b < length h \<longrightarrow>
            (n_pristine (h' ! b) \<longrightarrow> n_pristine (h ! b)) \<and> (status_ok (h ! b) \<longrightarrow> status_ok (h' ! b))) \<and>
         (length h \<le> b \<longrightarrow> status_ok (h' ! b))))"

text \<open>
  \<open>containers h xs\<close>: every object of \<open>xs\<close> is a \<^verbatim>\<open>ControlGroup\<close> or a \<^verbatim>\<open>ControlArray\<close>.
  \<open>walk V xs s\<close> performs the body of \<^verbatim>\<open>_updateValue\<close> on the objects of \<open>xs\<close> in turn.
\<close>

definition containers :: "heap \<Rightarrow> addr list \<Rightarrow> bool" where
  "containers h xs = list_all (\<lambda>x. is_container (n_kind (h ! x))) xs"

definition walk :: "validators \<Rightarrow> addr list \<Rightarrow> state \<Rightarrow> state" where
  "walk V xs s = foldl (\<lambda>t x. recompute V x t) s xs"

text \<open>
  The store and the log after the first three statements of \<^verbatim>\<open>Control.updateValue\<close>, that
  is when \<^verbatim>\<open>_updateParent\<close> is called.
\<close>

definition leaf_update :: "validators \<Rightarrow> addr \<Rightarrow> jsval \<Rightarrow> state \<Rightarrow> state" where
  "leaf_update V a v s =
     (let e = V (n_validator (heap s ! a)) (modify a (\<lambda>n. n\<lparr>n_value := v\<rparr>) (heap s)) a in
      s\<lparr>heap := modify a (\<lambda>n. n\<lparr>n_value := v, n_errors := e,
                 n_status := Some (if isPresent e then INVALID else VALID),
                 n_pristine := False\<rparr>) (heap s),
        emitted := emitted s @ [(a, v)]\<rparr>)"

text \<open>
  \<open>consistent_at h a\<close>: the value of the node equals the aggregation, in the words of the
  specification, of the current values of its children (nothing is asked of a leaf).
  \<open>linked h x\<close>: every container that holds \<open>x\<close> is the parent of \<open>x\<close>. \<open>tree_ok h\<close>: the store
  is a forest whose values are consistent: the children of every container are objects of
  the store that have this container as parent, and every node is consistent.
\<close>

definition consistent_at :: "heap \<Rightarrow> addr \<Rightarrow> bool" where
  "consistent_at h a =
     (case spec_aggregate h (n_kind (h ! a)) of None \<Rightarrow> True | Some v \<Rightarrow> n_value (h ! a) = v)"

definition linked :: "heap \<Rightarrow> addr \<Rightarrow> bool" where
  "linked h x = (\<forall>y<length h. x \<in> set (children_of (n_kind (h ! y))) \<longrightarrow> n_parent (h ! x) = Some y)"

definition tree_ok :: "heap \<Rightarrow> bool" where
  "tree_ok h =
     (\<forall>y<length h.
        (\<forall>c\<in>set (children_of (n_kind (h ! y))). c < length h \<and> n_parent (h ! c) = Some y) \<and>
        consistent_at h y)"

text \<open>
  \<open>names_ok h a\<close>: the children of a keyed container have distinct names, none of which is
  \<^verbatim>\<open>__proto__\<close>; this is so in every store that the constructors and methods build.
  \<open>path_ok h xs\<close> asks of the objects \<open>xs\<close> that a mutation is going to recompute that the
  containers holding them are their parents and that their names are in order, and of
  every other object of the store that its value is consistent already; nothing is asked
  of the values of \<open>xs\<close>.
\<close>

definition names_ok :: "heap \<Rightarrow> addr \<Rightarrow> bool" where
  "names_ok h a =
     (case n_kind (h ! a) of
        ControlGroup cs os \<Rightarrow> distinct (map fst cs) \<and> ''__proto__'' \<notin> fst ` set cs
      | _ \<Rightarrow> True)"

definition path_ok :: "heap \<Rightarrow> addr list \<Rightarrow> bool" where
  "path_ok h xs =
     ((\<forall>x\<in>set xs. linked h x \<and> names_ok h x) \<and>
      (\<forall>y<length h. y \<notin> set xs \<longrightarrow> consistent_at h y))"

text \<open>
  What a validator of the specification reads of the store: the value and child storage of
  its node and the children themselves. \<open>local_validators V\<close>: the validators \<open>V\<close> depend
  on nothing else. \<open>fresh_at V h x\<close>: errors and status of \<open>x\<close> are what the validator of
  \<open>x\<close> yields on the store \<open>h\<close> as it is.
\<close>

definition view :: "heap \<Rightarrow> addr \<Rightarrow> jsval \<times> kind \<times> node list" where
  "view h a = (n_value (h ! a), n_kind (h ! a), map (\<lambda>c. h ! c) (children_of (n_kind (h ! a))))"

definition local_validators :: "validators \<Rightarrow> bool" where
  "local_validators V = (\<forall>vr h h' a. view h a = view h' a \<longrightarrow> V vr h a = V vr h' a)"

definition fresh_at :: "validators \<Rightarrow> heap \<Rightarrow> addr \<Rightarrow> bool" where
  "fresh_at V h x =
     (n_errors (h ! x) = V (n_validator (h ! x)) h x \<and>
      n_status (h ! x) = Some (if isPresent (V (n_validator (h ! x)) h x) then INVALID else VALID))"

text \<open>The public mutations that end with \<^verbatim>\<open>_updateValue\<close> or \<^verbatim>\<open>_updateParent\<close>.\<close>

definition recomputes :: "op \<Rightarrow> bool" where
  "recomputes x =
     (case x of
        UpdateValue a v \<Rightarrow> True
      | Push arr c \<Rightarrow> True
      | Insert arr i c \<Rightarrow> True
      | RemoveAt arr i \<Rightarrow> True
      | Include g name \<Rightarrow> True
      | Exclude g name \<Rightarrow> True
      | _ \<Rightarrow> False)"

text \<open>The object such a mutation is called on (of no meaning for the other operations).\<close>

definition receiver :: "op \<Rightarrow> addr" where
  "receiver x =
     (case x of
        UpdateValue a v \<Rightarrow> a
      | Push arr c \<Rightarrow> arr
      | Insert arr i c \<Rightarrow> arr
      | RemoveAt arr i \<Rightarrow> arr
      | Include g name \<Rightarrow> g
      | Exclude g name \<Rightarrow> g
      | _ \<Rightarrow> 0)"

text \<open>
  A validator that is not local: it reports an error as soon as its control is dirty
  (\<^verbatim>\<open>c.dirty\<close> is a public getter).
\<close>

definition dirty_validators :: validators where
  "dirty_validators vr h a = (if n_pristine (h ! a) then None else Some [(''dirty'', JBool True)])"

section \<open>Example trees\<close>

text \<open>
  A leaf inside a keyed container inside a keyed container, built by the constructors
  (\<open>tree3\<close>), and the same tree after \<^verbatim>\<open>updateValue(null)\<close> on the leaf (\<open>tree3_null\<close>).
\<close>

definition tree3_ops :: "op list" where
  "tree3_ops =
     [NewControl (JNum 1) RequiredValidator,
      NewControlGroup [(''x'', 0)] None GroupValidator,
      NewControlGroup [(''m'', 1)] None GroupValidator]"

definition tree3 :: state where
  "tree3 =
     \<lparr>heap =
        [\<lparr>n_value = JNum 1, n_status = Some ''VALID'', n_errors = None, n_pristine = True,
            n_parent = Some 1, n_validator = RequiredValidator, n_kind = Control, n_controls_proto = None\<rparr>,
         \<lparr>n_value = JObj [(''x'', JNum 1)], n_status = Some ''VALID'', n_errors = None,
            n_pristine = True, n_parent = Some 2, n_validator = GroupValidator,
            n_kind = ControlGroup [(''x'', 0)] [], n_controls_proto = None\<rparr>,
         \<lparr>n_value = JObj [(''m'', JObj [(''x'', JNum 1)])], n_status = Some ''VALID'',
            n_errors = None, n_pristine = True, n_parent = None, n_validator = GroupValidator,
            n_kind = ControlGroup [(''m'', 1)] [], n_controls_proto = None\<rparr>],
      emitted = []\<rparr>"

definition tree3_null :: state where
  "tree3_null =
     \<lparr>heap =
        [\<lparr>n_value = JNull, n_status = Some ''INVALID'',
            n_errors = Some [(''required'', JBool True)], n_pristine = False,
            n_parent = Some 1, n_validator = RequiredValidator, n_kind = Control, n_controls_proto = None\<rparr>,
         \<lparr>n_value = JObj [(''x'', JNull)], n_status = Some ''INVALID'',
            n_errors = Some [(''invalid'', JBool True)], n_pristine = False,
            n_parent = Some 2, n_validator = GroupValidator,
            n_kind = ControlGroup [(''x'', 0)] [], n_controls_proto = None\<rparr>,
         \<lparr>n_value = JObj [(''m'', JObj [(''x'', JNull)])], n_status = Some ''INVALID'',
            n_errors = Some [(''invalid'', JBool True)], n_pristine = False,
            n_parent = None, n_validator = GroupValidator,
            n_kind = ControlGroup [(''m'', 1)] [], n_controls_proto = None\<rparr>],
      emitted =
        [(0, JNull), (1, JObj [(''x'', JNull)]), (2, JObj [(''m'', JObj [(''x'', JNull)])])]\<rparr>"

text \<open>Scenario F: the root (address 2) holds the group \<^verbatim>\<open>a\<close>, which holds the empty group \<^verbatim>\<open>b\<close>.\<close>

definition scenario_F_ops :: "op list" where
  "scenario_F_ops =
     [NewControlGroup [] None GroupValidator,
      NewControlGroup [(''b'', 0)] None GroupValidator,
      NewControlGroup [(''a'', 1)] None GroupValidator]"

definition scenario_F :: state where
  "scenario_F =
     \<lparr>heap =
        [\<lparr>n_value = JObj [], n_status = Some ''VALID'', n_errors = None, n_pristine = True,
            n_parent = Some 1, n_validator = GroupValidator, n_kind = ControlGroup [] [], n_controls_proto = None\<rparr>,
         \<lparr>n_value = JObj [(''b'', JObj [])], n_status = Some ''VALID'', n_errors = None,
            n_pristine = True, n_parent = Some 2, n_validator = GroupValidator,
            n_kind = ControlGroup [(''b'', 0)] [], n_controls_proto = None\<rparr>,
         \<lparr>n_value = JObj [(''a'', JObj [(''b'', JObj [])])], n_status = Some ''VALID'',
            n_errors = None, n_pristine = True, n_parent = None, n_validator = GroupValidator,
            n_kind = ControlGroup [(''a'', 1)] [], n_controls_proto = None\<rparr>],
      emitted = []\<rparr>"

text \<open>
  \<open>tree3_stale\<close>: the value of the leaf of \<open>tree3\<close> was assigned through the setter
  \<^verbatim>\<open>value\<close>, so errors and status are out of date; \<open>tree3_revalidated\<close>: the same tree
  after \<^verbatim>\<open>updateValidity\<close> on the leaf.
\<close>

definition tree3_stale :: state where
  "tree3_stale =
     \<lparr>heap =
        [\<lparr>n_value = JNull, n_status = Some ''VALID'', n_errors = None, n_pristine = True,
            n_parent = Some 1, n_validator = RequiredValidator, n_kind = Control, n_controls_proto = None\<rparr>,
         \<lparr>n_value = JObj [(''x'', JNum 1)], n_status = Some ''VALID'', n_errors = None,
            n_pristine = True, n_parent = Some 2, n_validator = GroupValidator,
            n_kind = ControlGroup [(''x'', 0)] [], n_controls_proto = None\<rparr>,
         \<lparr>n_value = JObj [(''m'', JObj [(''x'', JNum 1)])], n_status = Some ''VALID'',
            n_errors = None, n_pristine = True, n_parent = None, n_validator = GroupValidator,
            n_kind = ControlGroup [(''m'', 1)] [], n_controls_proto = None\<rparr>],
      emitted = []\<rparr>"

definition tree3_revalidated :: state where
  "tree3_revalidated =
     \<lparr>heap =
        [\<lparr>n_value = JNull, n_status = Some ''INVALID'',
            n_errors = Some [(''required'', JBool True)], n_pristine = True,
            n_parent = Some 1, n_validator = RequiredValidator, n_kind = Control, n_controls_proto = None\<rparr>,
         \<lparr>n_value = JObj [(''x'', JNum 1)], n_status = Some ''INVALID'',
            n_errors = Some [(''invalid'', JBool True)], n_pristine = True,
            n_parent = Some 2, n_validator = GroupValidator,
            n_kind = ControlGroup [(''x'', 0)] [], n_controls_proto = None\<rparr>,
         \<lparr>n_value = JObj [(''m'', JObj [(''x'', JNum 1)])], n_status = Some ''INVALID'',
            n_errors = Some [(''invalid'', JBool True)], n_pristine = True,
            n_parent = None, n_validator = GroupValidator,
            n_kind = ControlGroup [(''m'', 1)] [], n_controls_proto = None\<rparr>],
      emitted = []\<rparr>"

text \<open>
  Scenario D: the indexed container (address 2) over the leaves 1 and 2, and a further
  leaf 3 (address 3) outside of it; \<open>scenario_D_pushed\<close> is the store after
  \<^verbatim>\<open>push\<close> of the further leaf, \<open>scenario_D_inserted\<close> the store after \<^verbatim>\<open>insert(0, ...)\<close>
  of the further leaf instead, \<open>scenario_D_removed\<close> the store after \<^verbatim>\<open>removeAt(0)\<close> instead.
\<close>

definition scenario_D_ops :: "op list" where
  "scenario_D_ops =
     [NewControl (JNum 1) NullValidator,
      NewControl (JNum 2) NullValidator,
      NewControlArray [0, 1] ArrayValidator,
      NewControl (JNum 3) NullValidator]"

definition scenario_D :: state where
  "scenario_D =
     \<lparr>heap =
        [\<lparr>n_value = JNum 1, n_status = Some ''VALID'', n_errors = None, n_pristine = True,
            n_parent = Some 2, n_validator = NullValidator, n_kind = Control, n_controls_proto = None\<rparr>,
         \<lparr>n_value = JNum 2, n_status = Some ''VALID'', n_errors = None, n_pristine = True,
            n_parent = Some 2, n_validator = NullValidator, n_kind = Control, n_controls_proto = None\<rparr>,
         \<lparr>n_value = JArr [JNum 1, JNum 2], n_status = Some ''VALID'', n_errors = None,
            n_pristine = True, n_parent = None, n_validator = ArrayValidator,
            n_kind = ControlArray [0, 1], n_controls_proto = None\<rparr>,
         \<lparr>n_value = JNum 3, n_status = Some ''VALID'', n_errors = None, n_pristine = True,
            n_parent = None, n_validator = NullValidator, n_kind = Control, n_controls_proto = None\<rparr>],
      emitted = []\<rparr>"

definition scenario_D_pushed :: state where
  "scenario_D_pushed =
     \<lparr>heap =
        [\<lparr>n_value = JNum 1, n_status = Some ''VALID'', n_errors = None, n_pristine = True,
            n_parent = Some 2, n_validator = NullValidator, n_kind = Control, n_controls_proto = None\<rparr>,
         \<lparr>n_value = JNum 2, n_status = Some ''VALID'', n_errors = None, n_pristine = True,
            n_parent = Some 2, n_validator = NullValidator, n_kind = Control, n_controls_proto = None\<rparr>,
         \<lparr>n_value = JArr [JNum 1, JNum 2, JNum 3], n_status = Some ''VALID'', n_errors = None,
            n_pristine = False, n_parent = None, n_validator = ArrayValidator,
            n_kind = ControlArray [0, 1, 3], n_controls_proto = None\<rparr>,
         \<lparr>n_value = JNum 3, n_status = Some ''VALID'', n_errors = None, n_pristine = True,
            n_parent = Some 2, n_validator = NullValidator, n_kind = Control, n_controls_proto = None\<rparr>],
      emitted = [(2, JArr [JNum 1, JNum 2, JNum 3])]\<rparr>"

definition scenario_D_inserted :: state where
  "scenario_D_inserted =
     \<lparr>heap =
        [\<lparr>n_value = JNum 1, n_status = Some ''VALID'', n_errors = None, n_pristine = True,
            n_parent = Some 2, n_validator = NullValidator, n_kind = Control, n_controls_proto = None\<rparr>,
         \<lparr>n_value = JNum 2, n_status = Some ''VALID'', n_errors = None, n_pristine = True,
            n_parent = Some 2, n_validator = NullValidator, n_kind = Control, n_controls_proto = None\<rparr>,
         \<lparr>n_value = JArr [JNum 3, JNum 1, JNum 2], n_status = Some ''VALID'', n_errors = None,
            n_pristine = False, n_parent = None, n_validator = ArrayValidator,
            n_kind = ControlArray [3, 0, 1], n_controls_proto = None\<rparr>,
         \<lparr>n_value = JNum 3, n_status = Some ''VALID'', n_errors = None, n_pristine = True,
            n_parent = Some 2, n_validator = NullValidator, n_kind = Control, n_controls_proto = None\<rparr>],
      emitted = [(2, JArr [JNum 3, JNum 1, JNum 2])]\<rparr>"

definition scenario_D_removed :: state where
  "scenario_D_removed =
     \<lparr>heap =
        [\<lparr>n_value = JNum 1, n_status = Some ''VALID'', n_errors = None, n_pristine = True,
            n_parent = Some 2, n_validator = NullValidator, n_kind = Control, n_controls_proto = None\<rparr>,
         \<lparr>n_value = JNum 2, n_status = Some ''VALID'', n_errors = None, n_pristine = True,
            n_parent = Some 2, n_validator = NullValidator, n_kind = Control, n_controls_proto = None\<rparr>,
         \<lparr>n_value = JArr [JNum 2], n_status = Some ''VALID'', n_errors = None,
            n_pristine = False, n_parent = None, n_validator = ArrayValidator,
            n_kind = ControlArray [1], n_controls_proto = None\<rparr>,
         \<lparr>n_value = JNum 3, n_status = Some ''VALID'', n_errors = None, n_pristine = True,
            n_parent = None, n_validator = NullValidator, n_kind = Control, n_controls_proto = None\<rparr>],
      emitted = [(2, JArr [JNum 2])]\<rparr>"


definition spare :: state where
  "spare =
     \<lparr>heap =
        [\<lparr>n_value = JNum 1, n_status = Some ''VALID'', n_errors = None, n_pristine = True,
            n_parent = Some 1, n_validator = NullValidator, n_kind = Control, n_controls_proto = None\<rparr>,
         \<lparr>n_value = JObj [(''a'', JNum 1)], n_status = Some ''VALID'', n_errors = None,
            n_pristine = True, n_parent = None, n_validator = GroupValidator,
            n_kind = ControlGroup [(''a'', 0)] [], n_controls_proto = None\<rparr>,
         \<lparr>n_value = JNum 3, n_status = Some ''VALID'', n_errors = None, n_pristine = True,
            n_parent = None, n_validator = NullValidator, n_kind = Control, n_controls_proto = None\<rparr>],
      emitted = []\<rparr>"


definition spare_proto :: state where
  "spare_proto =
     \<lparr>heap =
        [\<lparr>n_value = JNum 1, n_status = Some ''VALID'', n_errors = None, n_pristine = True,
            n_parent = Some 1, n_validator = NullValidator, n_kind = Control, n_controls_proto = None\<rparr>,
         \<lparr>n_value = JObj [(''a'', JNum 1)], n_status = Some ''VALID'', n_errors = None,
            n_pristine = True, n_parent = None, n_validator = GroupValidator,
            n_kind = ControlGroup [(''a'', 0)] [], n_controls_proto = Some 2\<rparr>,
         \<lparr>n_value = JNum 3, n_status = Some ''VALID'', n_errors = None, n_pristine = True,
            n_parent = None, n_validator = NullValidator, n_kind = Control, n_controls_proto = None\<rparr>],
      emitted = []\<rparr>"



text \<open>
  A leaf that two keyed containers hold (addresses 1 and 2; the constructor of the second
  has made it the parent), and the store after \<^verbatim>\<open>updateValue(5)\<close> on the leaf.
\<close>

definition shared_ops :: "op list" where
  "shared_ops =
     [NewControl (JNum 1) NullValidator,
      NewControlGroup [(''a'', 0)] None GroupValidator,
      NewControlGroup [(''b'', 0)] None GroupValidator]"

definition shared :: state where
  "shared =
     \<lparr>heap =
        [\<lparr>n_value = JNum 1, n_status = Some ''VALID'', n_errors = None, n_pristine = True,
            n_parent = Some 2, n_validator = NullValidator, n_kind = Control, n_controls_proto = None\<rparr>,
         \<lparr>n_value = JObj [(''a'', JNum 1)], n_status = Some ''VALID'', n_errors = None,
            n_pristine = True, n_parent = None, n_validator = GroupValidator,
            n_kind = ControlGroup [(''a'', 0)] [], n_controls_proto = None\<rparr>,
         \<lparr>n_value = JObj [(''b'', JNum 1)], n_status = Some ''VALID'', n_errors = None,
            n_pristine = True, n_parent = None, n_validator = GroupValidator,
            n_kind = ControlGroup [(''b'', 0)] [], n_controls_proto = None\<rparr>],
      emitted = []\<rparr>"

definition shared_updated :: state where
  "shared_updated =
     \<lparr>heap =
        [\<lparr>n_value = JNum 5, n_status = Some ''VALID'', n_errors = None, n_pristine = False,
            n_parent = Some 2, n_validator = NullValidator, n_kind = Control, n_controls_proto = None\<rparr>,
         \<lparr>n_value = JObj [(''a'', JNum 1)], n_status = Some ''VALID'', n_errors = None,
            n_pristine = True, n_parent = None, n_validator = GroupValidator,
            n_kind = ControlGroup [(''a'', 0)] [], n_controls_proto = None\<rparr>,
         \<lparr>n_value = JObj [(''b'', JNum 5)], n_status = Some ''VALID'', n_errors = None,
            n_pristine = False, n_parent = None, n_validator = GroupValidator,
            n_kind = ControlGroup [(''b'', 0)] [], n_controls_proto = None\<rparr>],
      emitted = [(0, JNum 5), (2, JObj [(''b'', JNum 5)])]\<rparr>"


definition dirty_tree :: state where
  "dirty_tree =
     \<lparr>heap =
        [\<lparr>n_value = JNum 1, n_status = Some ''VALID'', n_errors = None, n_pristine = True,
            n_parent = Some 1, n_validator = Custom 0, n_kind = Control, n_controls_proto = None\<rparr>,
         \<lparr>n_value = JObj [(''a'', JNum 1)], n_status = Some ''VALID'', n_errors = None,
            n_pristine = True, n_parent = None, n_validator = Custom 0,
            n_kind = ControlGroup [(''a'', 0)] [], n_controls_proto = None\<rparr>],
      emitted = []\<rparr>"


text \<open>
  Scenarios B and C: the keyed container (address 2) over the leaf \<^verbatim>\<open>a\<close> with value 1 and
  the leaf \<^verbatim>\<open>b\<close> with value \<^verbatim>\<open>null\<close> and the validator that rejects \<^verbatim>\<open>null\<close>;
  \<open>scenario_C\<close> is the store after \<^verbatim>\<open>exclude("b")\<close>, \<open>scenario_C_included\<close> the store after
  a following \<^verbatim>\<open>include("b")\<close>.
\<close>

definition scenario_B_ops :: "op list" where
  "scenario_B_ops =
     [NewControl (JNum 1) NullValidator,
      NewControl JNull RequiredValidator,
      NewControlGroup [(''a'', 0), (''b'', 1)] None GroupValidator]"

definition scenario_B :: state where
  "scenario_B =
     \<lparr>heap =
        [\<lparr>n_value = JNum 1, n_status = Some ''VALID'', n_errors = None, n_pristine = True,
            n_parent = Some 2, n_validator = NullValidator, n_kind = Control, n_controls_proto = None\<rparr>,
         \<lparr>n_value = JNull, n_status = Some ''INVALID'',
            n_errors = Some [(''required'', JBool True)], n_pristine = True,
            n_parent = Some 2, n_validator = RequiredValidator, n_kind = Control, n_controls_proto = None\<rparr>,
         \<lparr>n_value = JObj [(''a'', JNum 1), (''b'', JNull)], n_status = Some ''INVALID'',
            n_errors = Some [(''invalid'', JBool True)], n_pristine = True,
            n_parent = None, n_validator = GroupValidator,
            n_kind = ControlGroup [(''a'', 0), (''b'', 1)] [], n_controls_proto = None\<rparr>],
      emitted = []\<rparr>"

definition scenario_C :: state where
  "scenario_C =
     \<lparr>heap =
        [\<lparr>n_value = JNum 1, n_status = Some ''VALID'', n_errors = None, n_pristine = True,
            n_parent = Some 2, n_validator = NullValidator, n_kind = Control, n_controls_proto = None\<rparr>,
         \<lparr>n_value = JNull, n_status = Some ''INVALID'',
            n_errors = Some [(''required'', JBool True)], n_pristine = True,
            n_parent = Some 2, n_validator = RequiredValidator, n_kind = Control, n_controls_proto = None\<rparr>,
         \<lparr>n_value = JObj [(''a'', JNum 1)], n_status = Some ''VALID'', n_errors = None,
            n_pristine = False, n_parent = None, n_validator = GroupValidator,
            n_kind = ControlGroup [(''a'', 0), (''b'', 1)] [(''b'', False)], n_controls_proto = None\<rparr>],
      emitted = [(2, JObj [(''a'', JNum 1)])]\<rparr>"

definition scenario_C_included :: state where
  "scenario_C_included =
     \<lparr>heap =
        [\<lparr>n_value = JNum 1, n_status = Some ''VALID'', n_errors = None, n_pristine = True,
            n_parent = Some 2, n_validator = NullValidator, n_kind = Control, n_controls_proto = None\<rparr>,
         \<lparr>n_value = JNull, n_status = Some ''INVALID'',
            n_errors = Some [(''required'', JBool True)], n_pristine = True,
            n_parent = Some 2, n_validator = RequiredValidator, n_kind = Control, n_controls_proto = None\<rparr>,
         \<lparr>n_value = JObj [(''a'', JNum 1), (''b'', JNull)], n_status = Some ''INVALID'',
            n_errors = Some [(''invalid'', JBool True)], n_pristine = False,
            n_parent = None, n_validator = GroupValidator,
            n_kind = ControlGroup [(''a'', 0), (''b'', 1)] [(''b'', True)], n_controls_proto = None\<rparr>],
      emitted = [(2, JObj [(''a'', JNum 1)]), (2, JObj [(''a'', JNum 1), (''b'', JNull)])]\<rparr>"

section \<open>The store under the primitive steps\<close>

lemma length_modify [simp]: "length (modify a f h) = length h"
  by (simp add: modify_def)

lemma nth_modify: "modify a f h ! b = (if b = a \<and> a < length h then f (h ! a) else h ! b)"
  by (auto simp add: modify_def list_update_beyond)

lemma length_setErrorsStatus [simp]: "length (setErrorsStatus V a h) = length h"
  by (simp add: setErrorsStatus_def Let_def)

lemma nth_setErrorsStatus:
  "setErrorsStatus V a h ! b =
     (if b = a \<and> a < length h
      then (h ! a)\<lparr>n_errors := V (n_validator (h ! a)) h a,
                   n_status := status_of (V (n_validator (h ! a)) h a)\<rparr>
      else h ! b)"
  by (simp add: setErrorsStatus_def Let_def nth_modify status_of_def)

lemma status_ok_status_of [simp]: "status_ok (n\<lparr>n_errors := e, n_status := status_of e\<rparr>)"
  by (simp add: status_ok_def)

lemma length_Control_setValueErrorsStatus [simp]:
  "length (Control_setValueErrorsStatus V a v h) = length h"
  by (simp add: Control_setValueErrorsStatus_def)

lemma nth_Control_setValueErrorsStatus:
  "Control_setValueErrorsStatus V a v h ! b =
     (if b = a \<and> a < length h
      then (h ! a)\<lparr>n_value := v,
                   n_errors := V (n_validator (h ! a)) (modify a (\<lambda>n. n\<lparr>n_value := v\<rparr>) h) a,
                   n_status := status_of (V (n_validator (h ! a)) (modify a (\<lambda>n. n\<lparr>n_value := v\<rparr>) h) a)\<rparr>
      else h ! b)"
  by (simp add: Control_setValueErrorsStatus_def nth_setErrorsStatus nth_modify)

lemma length_priv_setValueErrorsStatus [simp]:
  "length (priv_setValueErrorsStatus V a h) = length h"
  by (simp add: priv_setValueErrorsStatus_def split: kind.splits)

lemma priv_setValueErrorsStatus_aggregate:
  "priv_setValueErrorsStatus V a h =
     (case aggregate h (n_kind (h ! a)) of
        None \<Rightarrow> h
      | Some v \<Rightarrow> setErrorsStatus V a (modify a (\<lambda>n. n\<lparr>n_value := v\<rparr>) h))"
  by (simp add: priv_setValueErrorsStatus_def aggregate_def split: kind.splits)

lemma nth_priv_setValueErrorsStatus:
  "priv_setValueErrorsStatus V a h ! b =
     (case aggregate h (n_kind (h ! a)) of
        None \<Rightarrow> h ! b
      | Some v \<Rightarrow>
          (if b = a \<and> a < length h
           then (h ! a)\<lparr>n_value := v,
                   n_errors := V (n_validator (h ! a)) (modify a (\<lambda>n. n\<lparr>n_value := v\<rparr>) h) a,
                   n_status := status_of (V (n_validator (h ! a)) (modify a (\<lambda>n. n\<lparr>n_value := v\<rparr>) h) a)\<rparr>
           else h ! b))"
  by (simp add: priv_setValueErrorsStatus_aggregate nth_setErrorsStatus nth_modify split: option.splits)

lemma length_setParent [simp]: "length (setParent c p h) = length h"
  by (simp add: setParent_def)

lemma nth_setParent:
  "setParent c p h ! b = (if b = c \<and> c < length h then (h ! c)\<lparr>n_parent := Some p\<rparr> else h ! b)"
  by (simp add: setParent_def nth_modify)

lemma length_priv_setParentForControls [simp]:
  "length (priv_setParentForControls a cs h) = length h"
  unfolding priv_setParentForControls_def by (induction cs arbitrary: h) simp_all

lemma nth_priv_setParentForControls:
  "priv_setParentForControls a cs h ! b =
     (if b \<in> set cs \<and> b < length h then (h ! b)\<lparr>n_parent := Some a\<rparr> else h ! b)"
  unfolding priv_setParentForControls_def
proof (induction cs arbitrary: h)
  case Nil
  show ?case by simp
next
  case (Cons c cs)
  show ?case
    by (auto simp add: Cons.IH nth_setParent)
qed

lemma length_heap_recompute [simp]: "length (heap (recompute V a s)) = length (heap s)"
  by (simp add: recompute_def Let_def)

lemma emitted_recompute:
  "emitted (recompute V a s) = emitted s @ [(a, n_value (heap (recompute V a s) ! a))]"
  by (simp add: recompute_def Let_def nth_modify)

lemma nth_heap_recompute_other: "b \<noteq> a \<Longrightarrow> heap (recompute V a s) ! b = heap s ! b"
  by (simp add: recompute_def Let_def nth_modify nth_priv_setValueErrorsStatus split: option.splits)

lemma nth_heap_recompute_same:
  "a < length (heap s) \<Longrightarrow> aggregate (heap s) (n_kind (heap s ! a)) = Some v \<Longrightarrow>
   heap (recompute V a s) ! a =
     (heap s ! a)\<lparr>n_value := v,
        n_errors := V (n_validator (heap s ! a)) (modify a (\<lambda>n. n\<lparr>n_value := v\<rparr>) (heap s)) a,
        n_status := status_of (V (n_validator (heap s ! a)) (modify a (\<lambda>n. n\<lparr>n_value := v\<rparr>) (heap s)) a),
        n_pristine := False\<rparr>"
  by (simp add: recompute_def Let_def nth_modify nth_priv_setValueErrorsStatus)


lemma set_controls_fields [simp]:
  "n_status (set_controls cs n) = n_status n" "n_errors (set_controls cs n) = n_errors n"
  "n_pristine (set_controls cs n) = n_pristine n" "n_parent (set_controls cs n) = n_parent n"
  "n_value (set_controls cs n) = n_value n" "n_validator (set_controls cs n) = n_validator n"
  by (simp_all add: set_controls_def split: kind.splits)

lemma set_optionals_fields [simp]:
  "n_status (set_optionals os n) = n_status n" "n_errors (set_optionals os n) = n_errors n"
  "n_pristine (set_optionals os n) = n_pristine n" "n_parent (set_optionals os n) = n_parent n"
  "n_value (set_optionals os n) = n_value n" "n_validator (set_optionals os n) = n_validator n"
  by (simp_all add: set_optionals_def split: kind.splits)

lemma set_list_fields [simp]:
  "n_status (set_list cs n) = n_status n" "n_errors (set_list cs n) = n_errors n"
  "n_pristine (set_list cs n) = n_pristine n" "n_parent (set_list cs n) = n_parent n"
  "n_value (set_list cs n) = n_value n" "n_validator (set_list cs n) = n_validator n"
  by (simp_all add: set_list_def split: kind.splits)

text \<open>\<^verbatim>\<open>addControl\<close> and \<^verbatim>\<open>removeControl\<close> touch nothing but the child storage.\<close>

lemma group_storage_frame:
  assumes "addControl g name c s = Some r \<or> removeControl g name s = Some r"
  shows "emitted (state_of r) = emitted s \<and> length (heap (state_of r)) = length (heap s) \<and>
     (\<forall>b. n_value (heap (state_of r) ! b) = n_value (heap s ! b) \<and>
          n_status (heap (state_of r) ! b) = n_status (heap s ! b) \<and>
          n_errors (heap (state_of r) ! b) = n_errors (heap s ! b) \<and>
          n_pristine (heap (state_of r) ! b) = n_pristine (heap s ! b) \<and>
          n_parent (heap (state_of r) ! b) = n_parent (heap s ! b) \<and>
          n_validator (heap (state_of r) ! b) = n_validator (heap s ! b))"
  using assms
  by (auto simp: addControl_def removeControl_def nth_modify
      split: kind.splits option.splits if_splits)

text \<open>
  A property kept by every single step is kept by a whole upward walk, whenever the walk
  returns or raises.
\<close>

lemma updateValidity_invariant:
  assumes run: "updateValidity V a s = Some r"
    and step: "\<And>a s. I s \<Longrightarrow> I (revalidate V a s)"
    and start: "I s"
  shows "I (state_of r)"
proof -
  have "V' = V \<longrightarrow> I s \<longrightarrow> I (state_of r)" if "updateValidity V' a s = Some r" for V'
  proof (rule updateValidity.raw_induct[where P = "\<lambda>V' a s r. V' = V \<longrightarrow> I s \<longrightarrow> I (state_of r)", OF _ that])
    fix f V' a s r
    assume IH: "\<And>V' a s r. f V' a s = Some r \<Longrightarrow> V' = V \<longrightarrow> I s \<longrightarrow> I (state_of r)"
      and body: "(if a < length (heap s) then
          (let s1 = s\<lparr>heap := setErrorsStatus V' a (heap s)\<rparr> in
           case n_parent (heap s1 ! a) of None \<Rightarrow> Some (Returns s1) | Some p \<Rightarrow> f V' p s1)
        else Some (Raises TypeError s)) = Some r"
    show "V' = V \<longrightarrow> I s \<longrightarrow> I (state_of r)"
    proof (intro impI)
      assume eq: "V' = V" and Is: "I s"
      show "I (state_of r)"
      proof (cases "a < length (heap s)")
        case False
        with body Is show ?thesis by auto
      next
        case True
        let ?s1 = "s\<lparr>heap := setErrorsStatus V a (heap s)\<rparr>"
        have I1: "I ?s1" using step[OF Is, of a] by (simp add: revalidate_def)
        show ?thesis
        proof (cases "n_parent (heap ?s1 ! a)")
          case None
          with body True I1 eq show ?thesis by (auto simp add: Let_def)
        next
          case (Some p)
          with body True eq have "f V p ?s1 = Some r" by (simp add: Let_def)
          from IH[OF this] I1 show ?thesis by simp
        qed
      qed
    qed
  qed
  with run start show ?thesis by blast
qed

lemma priv_updateValue_invariant:
  assumes run: "priv_updateValue V a s = Some r"
    and step: "\<And>a s. I s \<Longrightarrow> I (recompute V a s)"
    and start: "I s"
  shows "I (state_of r)"
proof -
  have "V' = V \<longrightarrow> I s \<longrightarrow> I (state_of r)" if "priv_updateValue V' a s = Some r" for V'
  proof (rule priv_updateValue.raw_induct[where P = "\<lambda>V' a s r. V' = V \<longrightarrow> I s \<longrightarrow> I (state_of r)", OF _ that])
    fix f V' a s r
    assume IH: "\<And>V' a s r. f V' a s = Some r \<Longrightarrow> V' = V \<longrightarrow> I s \<longrightarrow> I (state_of r)"
      and body: "(if a < length (heap s) \<and> is_container (n_kind (heap s ! a)) then
          (let s3 = recompute V' a s in
           case n_parent (heap s3 ! a) of None \<Rightarrow> Some (Returns s3) | Some p \<Rightarrow> f V' p s3)
        else Some (Raises TypeError s)) = Some r"
    show "V' = V \<longrightarrow> I s \<longrightarrow> I (state_of r)"
    proof (intro impI)
      assume eq: "V' = V" and Is: "I s"
      show "I (state_of r)"
      proof (cases "a < length (heap s) \<and> is_container (n_kind (heap s ! a))")
        case False
        with body Is show ?thesis by auto
      next
        case True
        let ?s1 = "recompute V a s"
        have I1: "I ?s1" using step[OF Is] .
        show ?thesis
        proof (cases "n_parent (heap ?s1 ! a)")
          case None
          with body True I1 eq show ?thesis by (auto simp add: Let_def)
        next
          case (Some p)
          with body True eq have "f V p ?s1 = Some r" by (simp add: Let_def)
          from IH[OF this] I1 show ?thesis by simp
        qed
      qed
    qed
  qed
  with run start show ?thesis by blast
qed

section \<open>Upward walks along the parent references\<close>

text \<open>
  A walk that starts at an object with a finite chain of ancestors returns, and its result
  is the composition of the single steps along the chain. Conversely a walk of
  \<^verbatim>\<open>_updateValue\<close> that returns went along such a chain of containers.
\<close>

lemma chain_allocated: "chain h a ps \<Longrightarrow> a < length h \<and> (\<forall>p\<in>set ps. p < length h)"
  by (induction ps arbitrary: a) auto

lemma chain_cong:
  assumes "length h' = length h" and "\<And>b. b < length h \<Longrightarrow> n_parent (h' ! b) = n_parent (h ! b)"
  shows "chain h' a ps = chain h a ps"
  using assms by (induction ps arbitrary: a) auto

lemma chain_cong_on:
  "chain h a ps \<Longrightarrow> length h' = length h \<Longrightarrow>
   (\<And>b. b \<in> set (a # ps) \<Longrightarrow> n_parent (h' ! b) = n_parent (h ! b)) \<Longrightarrow> chain h' a ps"
  by (induction ps arbitrary: a) auto

lemma parent_setErrorsStatus [simp]: "n_parent (setErrorsStatus V a h ! b) = n_parent (h ! b)"
  by (simp add: nth_setErrorsStatus)

lemma chain_revalidate [simp]: "chain (heap (revalidate V x s)) a ps = chain (heap s) a ps"
  by (rule chain_cong) (simp_all add: revalidate_def)

lemma updateValidity_chain:
  "chain (heap s) a ps \<Longrightarrow>
   updateValidity V a s = Some (Returns (foldl (\<lambda>t x. revalidate V x t) s (a # ps)))"
proof (induction ps arbitrary: a s)
  case Nil
  then show ?case
    by (subst updateValidity.simps) (simp add: Let_def revalidate_def)
next
  case (Cons p ps)
  from Cons.prems have a: "a < length (heap s)" and par: "n_parent (heap s ! a) = Some p"
    and rest: "chain (heap (revalidate V a s)) p ps"
    by simp_all
  from Cons.IH[OF rest]
  have "updateValidity V p (revalidate V a s) =
      Some (Returns (foldl (\<lambda>t x. revalidate V x t) (revalidate V a s) (p # ps)))" .
  with a par show ?case
    by (subst updateValidity.simps) (simp add: Let_def revalidate_def)
qed

lemma heap_foldl_revalidate_other:
  "b \<notin> set xs \<Longrightarrow> heap (foldl (\<lambda>t x. revalidate V x t) s xs) ! b = heap s ! b"
  by (induction xs arbitrary: s) (simp_all add: revalidate_def nth_setErrorsStatus)

lemma status_ok_foldl_revalidate:
  "x \<in> set xs \<Longrightarrow> x < length (heap s) \<Longrightarrow>
   status_ok (heap (foldl (\<lambda>t x. revalidate V x t) s xs) ! x)"
proof (induction xs arbitrary: s rule: rev_induct)
  case Nil
  then show ?case by simp
next
  case (snoc y ys)
  let ?t = "foldl (\<lambda>t x. revalidate V x t) s ys"
  have len: "length (heap ?t) = length (heap s)"
    by (induction ys arbitrary: s) (simp_all add: revalidate_def)
  show ?case
  proof (cases "x = y")
    case True
    with snoc.prems len show ?thesis
      by (simp add: revalidate_def nth_setErrorsStatus)
  next
    case False
    with snoc have "status_ok (heap ?t ! x)" by simp
    with False show ?thesis
      by (simp add: revalidate_def nth_setErrorsStatus)
  qed
qed

lemma validity_frame_step:
  "(setErrorsStatus V a h ! b)\<lparr>n_errors := n_errors (h ! b), n_status := n_status (h ! b)\<rparr> = h ! b"
  by (simp add: nth_setErrorsStatus)


lemma chain_unique: "chain h a ps \<Longrightarrow> chain h a qs \<Longrightarrow> ps = qs"
proof (induction ps arbitrary: a qs)
  case Nil
  then show ?case by (cases qs) auto
next
  case (Cons p ps)
  then show ?case by (cases qs) auto
qed

lemma chain_suffix: "chain h a (xs @ b # ys) \<Longrightarrow> chain h b ys"
  by (induction xs arbitrary: a) auto

lemma chain_not_self:
  assumes "chain h a ps"
  shows "a \<notin> set ps"
proof
  assume "a \<in> set ps"
  then obtain xs ys where ps: "ps = xs @ a # ys" by (auto dest: split_list)
  with assms have "chain h a ys" by (auto dest: chain_suffix)
  with assms have "ps = ys" by (rule chain_unique)
  with ps show False by simp
qed

lemma chain_distinct: "chain h a ps \<Longrightarrow> distinct (a # ps)"
proof (induction ps arbitrary: a)
  case Nil
  then show ?case by simp
next
  case (Cons p ps)
  from Cons.prems have "chain h p ps" by simp
  from Cons.IH[OF this] chain_not_self[OF Cons.prems] show ?case by simp
qed

lemma chain_parent_in:
  "chain h a ps \<Longrightarrow> x \<in> set (a # ps) \<Longrightarrow> n_parent (h ! x) = Some q \<Longrightarrow> q \<in> set ps"
  by (induction ps arbitrary: a) auto

lemma chain_root_last:
  "chain h a ps \<Longrightarrow> n_parent (h ! last (a # ps)) = None"
  by (induction ps arbitrary: a) auto

lemma nth_heap_recompute:
  "heap (recompute V a s) ! b =
     (if b = a \<and> a < length (heap s) then
        (case aggregate (heap s) (n_kind (heap s ! a)) of
           None \<Rightarrow> (heap s ! a)\<lparr>n_pristine := False\<rparr>
         | Some v \<Rightarrow>
             (heap s ! a)\<lparr>n_value := v,
               n_errors := V (n_validator (heap s ! a)) (modify a (\<lambda>n. n\<lparr>n_value := v\<rparr>) (heap s)) a,
               n_status := status_of (V (n_validator (heap s ! a)) (modify a (\<lambda>n. n\<lparr>n_value := v\<rparr>) (heap s)) a),
               n_pristine := False\<rparr>)
      else heap s ! b)"
  by (simp add: recompute_def Let_def nth_modify nth_priv_setValueErrorsStatus split: option.splits)

lemma recompute_fields [simp]:
  "n_parent (heap (recompute V a s) ! b) = n_parent (heap s ! b)"
  "n_kind (heap (recompute V a s) ! b) = n_kind (heap s ! b)"
  "n_validator (heap (recompute V a s) ! b) = n_validator (heap s ! b)"
  by (simp_all add: nth_heap_recompute split: option.splits)

lemma recompute_not_pristine: "a < length (heap s) \<Longrightarrow> \<not> n_pristine (heap (recompute V a s) ! a)"
  by (simp add: nth_heap_recompute split: option.splits)

lemma chain_recompute [simp]: "chain (heap (recompute V x s)) a ps = chain (heap s) a ps"
  by (rule chain_cong) simp_all

lemma containers_recompute [simp]: "containers (heap (recompute V x s)) xs = containers (heap s) xs"
  by (simp add: containers_def)

lemma walk_simps [simp]:
  "walk V [] s = s"
  "walk V (x # xs) s = walk V xs (recompute V x s)"
  by (simp_all add: walk_def)

lemma walk_append: "walk V (xs @ ys) s = walk V ys (walk V xs s)"
  by (simp add: walk_def)

lemma priv_updateValue_chain:
  "chain (heap s) a ps \<Longrightarrow> containers (heap s) (a # ps) \<Longrightarrow>
   priv_updateValue V a s = Some (Returns (walk V (a # ps) s))"
proof (induction ps arbitrary: a s)
  case Nil
  then show ?case
    by (subst priv_updateValue.simps) (simp add: Let_def containers_def)
next
  case (Cons p ps)
  from Cons.prems have a: "a < length (heap s)" "is_container (n_kind (heap s ! a))"
    and par: "n_parent (heap s ! a) = Some p"
    and rest: "chain (heap (recompute V a s)) p ps" "containers (heap (recompute V a s)) (p # ps)"
    by (simp_all add: containers_def)
  from Cons.IH[OF rest]
  have "priv_updateValue V p (recompute V a s) = Some (Returns (walk V (p # ps) (recompute V a s)))" .
  with a par show ?case
    by (subst priv_updateValue.simps) (simp add: Let_def)
qed

lemma priv_updateValue_returns_chain:
  assumes "priv_updateValue V a s = Some (Returns s')"
  shows "\<exists>ps. chain (heap s) a ps \<and> containers (heap s) (a # ps)"
proof -
  let ?P = "\<lambda>(V::validators) a s r. (\<exists>s'. r = Returns s') \<longrightarrow>
      (\<exists>ps. chain (heap s) a ps \<and> containers (heap s) (a # ps))"
  have "?P V a s (Returns s')"
  proof (rule priv_updateValue.raw_induct[where P = ?P, OF _ assms])
    fix f and V :: validators and a s r
    assume IH: "\<And>V a s r. f V a s = Some r \<Longrightarrow> ?P V a s r"
      and body: "(if a < length (heap s) \<and> is_container (n_kind (heap s ! a)) then
          (let s3 = recompute V a s in
           case n_parent (heap s3 ! a) of None \<Rightarrow> Some (Returns s3) | Some p \<Rightarrow> f V p s3)
        else Some (Raises TypeError s)) = Some r"
    show "?P V a s r"
    proof (intro impI)
      assume ret: "\<exists>s'. r = Returns s'"
      with body have a: "a < length (heap s)" "is_container (n_kind (heap s ! a))"
        by (auto split: if_splits)
      show "\<exists>ps. chain (heap s) a ps \<and> containers (heap s) (a # ps)"
      proof (cases "n_parent (heap s ! a)")
        case None
        with a have "chain (heap s) a [] \<and> containers (heap s) [a]"
          by (simp add: containers_def)
        then show ?thesis by blast
      next
        case (Some p)
        with body a have "f V p (recompute V a s) = Some r" by (simp add: Let_def)
        from IH[OF this] ret obtain ps where
          "chain (heap (recompute V a s)) p ps" "containers (heap (recompute V a s)) (p # ps)"
          by blast
        with a Some have "chain (heap s) a (p # ps) \<and> containers (heap s) (a # p # ps)"
          by (simp add: containers_def)
        then show ?thesis by blast
      qed
    qed
  qed
  then show ?thesis by simp
qed

lemma priv_updateValue_returns_walk:
  assumes "priv_updateValue V a s = Some (Returns s')"
  obtains ps where "chain (heap s) a ps" "containers (heap s) (a # ps)" "s' = walk V (a # ps) s"
proof -
  from priv_updateValue_returns_chain[OF assms] obtain ps where
    ps: "chain (heap s) a ps" "containers (heap s) (a # ps)" by blast
  from priv_updateValue_chain[OF ps, of V] assms have "s' = walk V (a # ps) s" by simp
  with ps that show thesis by blast
qed

lemma length_heap_walk [simp]: "length (heap (walk V xs s)) = length (heap s)"
  by (induction xs arbitrary: s) simp_all

lemma walk_fields [simp]:
  "n_parent (heap (walk V xs s) ! b) = n_parent (heap s ! b)"
  "n_kind (heap (walk V xs s) ! b) = n_kind (heap s ! b)"
  "n_validator (heap (walk V xs s) ! b) = n_validator (heap s ! b)"
  by (induction xs arbitrary: s) simp_all

lemma heap_walk_other: "b \<notin> set xs \<Longrightarrow> heap (walk V xs s) ! b = heap s ! b"
  by (induction xs arbitrary: s) (simp_all add: nth_heap_recompute_other)

lemma walk_not_pristine:
  "x \<in> set xs \<Longrightarrow> x < length (heap s) \<Longrightarrow> \<not> n_pristine (heap (walk V xs s) ! x)"
proof (induction xs arbitrary: s rule: rev_induct)
  case Nil
  then show ?case by simp
next
  case (snoc y ys)
  show ?case
  proof (cases "x = y")
    case True
    with snoc.prems show ?thesis
      by (simp add: walk_append recompute_not_pristine)
  next
    case False
    with snoc have "\<not> n_pristine (heap (walk V ys s) ! x)" by simp
    with False show ?thesis
      by (simp add: walk_append nth_heap_recompute_other)
  qed
qed

lemma emitted_walk:
  "distinct xs \<Longrightarrow>
   emitted (walk V xs s) = emitted s @ map (\<lambda>x. (x, n_value (heap (walk V xs s) ! x))) xs"
proof (induction xs arbitrary: s)
  case Nil
  then show ?case by simp
next
  case (Cons x xs)
  then have "x \<notin> set xs" "distinct xs" by simp_all
  with Cons.IH[of "recompute V x s"] show ?case
    by (simp add: emitted_recompute heap_walk_other)
qed

lemma updateValue_leaf_update:
  assumes "a < length (heap s)" "n_kind (heap s ! a) = Control"
  shows "updateValue V a v s = priv_updateParent V a (leaf_update V a v s)"
proof -
  have "modify a (\<lambda>n. n\<lparr>n_pristine := False\<rparr>) (Control_setValueErrorsStatus V a v (heap s)) =
      heap (leaf_update V a v s)"
    using assms(1)
    by (simp add: leaf_update_def modify_def Control_setValueErrorsStatus_def setErrorsStatus_def
        Let_def)
  moreover have "n_value (heap (leaf_update V a v s) ! a) = v"
    using assms(1) by (simp add: leaf_update_def Let_def nth_modify)
  ultimately show ?thesis
    using assms by (simp add: updateValue_def Let_def leaf_update_def)
qed

lemma leaf_update_fields [simp]:
  "length (heap (leaf_update V a v s)) = length (heap s)"
  "n_parent (heap (leaf_update V a v s) ! b) = n_parent (heap s ! b)"
  "n_kind (heap (leaf_update V a v s) ! b) = n_kind (heap s ! b)"
  "n_validator (heap (leaf_update V a v s) ! b) = n_validator (heap s ! b)"
  "emitted (leaf_update V a v s) = emitted s @ [(a, v)]"
  by (simp_all add: leaf_update_def Let_def nth_modify)


lemma chain_leaf_update [simp]: "chain (heap (leaf_update V x v s)) a ps = chain (heap s) a ps"
  by (rule chain_cong) simp_all

lemma containers_leaf_update [simp]:
  "containers (heap (leaf_update V x v s)) xs = containers (heap s) xs"
  by (simp add: containers_def)

lemma updateValue_chain:
  assumes "n_kind (heap s ! a) = Control" "chain (heap s) a ps" "containers (heap s) ps"
  shows "updateValue V a v s = Some (Returns (walk V ps (leaf_update V a v s)))"
proof -
  from assms(2) have a: "a < length (heap s)" by (simp add: chain_allocated)
  show ?thesis
  proof (cases ps)
    case Nil
    with assms a show ?thesis
      by (simp add: updateValue_leaf_update priv_updateParent_def)
  next
    case (Cons p qs)
    with assms have "chain (heap (leaf_update V a v s)) p qs"
      "containers (heap (leaf_update V a v s)) (p # qs)" by simp_all
    from priv_updateValue_chain[OF this, of V] Cons assms a show ?thesis
      by (simp add: updateValue_leaf_update priv_updateParent_def)
  qed
qed


lemma priv_updateValue_returns_effect:
  assumes "priv_updateValue V a s = Some (Returns s')"
  shows "\<not> n_pristine (heap s' ! a) \<and> n_parent (heap s' ! c) = n_parent (heap s ! c) \<and>
    n_kind (heap s' ! c) = n_kind (heap s ! c) \<and>
    (\<exists>rest. emitted s' = emitted s @ (a, n_value (heap s' ! a)) # rest)"
proof -
  from assms obtain ps where ps: "chain (heap s) a ps" "containers (heap s) (a # ps)"
    "s' = walk V (a # ps) s"
    by (rule priv_updateValue_returns_walk)
  from ps(1) have a: "a < length (heap s)" by (simp add: chain_allocated)
  from chain_distinct[OF ps(1)] have d: "distinct (a # ps)" .
  have "\<not> n_pristine (heap s' ! a)"
    unfolding ps(3) by (rule walk_not_pristine) (simp_all add: a)
  moreover have "emitted s' = emitted s @ (a, n_value (heap s' ! a)) # map (\<lambda>x. (x, n_value (heap s' ! x))) ps"
    unfolding ps(3) using emitted_walk[OF d, of V s] by simp
  ultimately show ?thesis by (simp add: ps(3))
qed

section \<open>Freshness of validity along a walk\<close>

text \<open>
  The value a container assigns to itself reads the values of its children only. In a
  store where every container that holds a node of the walk is the parent of that node,
  recomputing the nodes of a chain from bottom to top leaves, for validators that read
  only what \<open>view\<close> shows, errors and status of every node of the chain as the validator
  yields them on the final store.
\<close>

lemma priv_reduceValue_cong:
  assumes "\<And>c. c \<in> snd ` set cs \<Longrightarrow> n_value (h' ! c) = n_value (h ! c)"
  shows "priv_reduceValue h' cs os = priv_reduceValue h cs os"
proof -
  have "fold (\<lambda>(name, c) res. if priv_included os name
            then StringMap_set res name (n_value (h' ! c)) else res) cs acc =
        fold (\<lambda>(name, c) res. if priv_included os name
            then StringMap_set res name (n_value (h ! c)) else res) cs acc" for acc
    using assms
  proof (induction cs arbitrary: acc)
    case Nil
    show ?case by simp
  next
    case (Cons kc cs)
    obtain k c where kc: "kc = (k, c)" by (cases kc)
    from Cons.prems have "n_value (h' ! c) = n_value (h ! c)" by (simp add: kc)
    moreover have "\<And>c. c \<in> snd ` set cs \<Longrightarrow> n_value (h' ! c) = n_value (h ! c)"
      using Cons.prems by auto
    ultimately show ?case using Cons.IH by (simp add: kc)
  qed
  then show ?thesis
    by (simp add: priv_reduceValue_def priv_reduceChildren_def)
qed

lemma aggregate_cong:
  assumes "\<And>c. c \<in> set (children_of k) \<Longrightarrow> n_value (h' ! c) = n_value (h ! c)"
  shows "aggregate h' k = aggregate h k"
proof (cases k)
  case Control
  then show ?thesis by (simp add: aggregate_def)
next
  case (ControlGroup cs os)
  with assms have "priv_reduceValue h' cs os = priv_reduceValue h cs os"
    by (intro priv_reduceValue_cong) (auto simp: children_of_def)
  with ControlGroup show ?thesis by (simp add: aggregate_def)
next
  case (ControlArray cs)
  with assms have "map (\<lambda>c. n_value (h' ! c)) cs = map (\<lambda>c. n_value (h ! c)) cs"
    by (simp add: children_of_def)
  with ControlArray show ?thesis by (simp add: aggregate_def)
qed

lemma linked_cong:
  assumes "length h' = length h" "\<And>b. n_kind (h' ! b) = n_kind (h ! b)"
    "\<And>b. n_parent (h' ! b) = n_parent (h ! b)"
  shows "linked h' x = linked h x"
  using assms by (simp add: linked_def)

lemma tree_ok_linked: "tree_ok h \<Longrightarrow> linked h x"
  unfolding tree_ok_def linked_def by blast



lemma linked_recompute [simp]: "linked (heap (recompute V a s)) x = linked (heap s) x"
  by (rule linked_cong) simp_all


lemma local_validatorsD:
  "local_validators V \<Longrightarrow> view h a = view h' a \<Longrightarrow> V vr h a = V vr h' a"
  unfolding local_validators_def by blast




lemma linked_walk [simp]: "linked (heap (walk V xs s)) x = linked (heap s) x"
  by (rule linked_cong) simp_all


lemma tree_okD:
  "tree_ok h \<Longrightarrow> y < length h \<Longrightarrow> c \<in> set (children_of (n_kind (h ! y))) \<Longrightarrow>
   c < length h \<and> n_parent (h ! c) = Some y"
  unfolding tree_ok_def by blast

lemma tree_ok_consistent: "tree_ok h \<Longrightarrow> y < length h \<Longrightarrow> consistent_at h y"
  unfolding tree_ok_def by blast

lemma set_list_kind: "n_kind n = ControlArray l \<Longrightarrow> n_kind (set_list l' n) = ControlArray l'"
  by (simp add: set_list_def)

lemma set_optionals_kind:
  "n_kind n = ControlGroup cs os \<Longrightarrow> n_kind (set_optionals os' n) = ControlGroup cs os'"
  by (simp add: set_optionals_def)

lemma chain_walk [simp]: "chain (heap (walk V xs s)) a ps = chain (heap s) a ps"
  by (rule chain_cong) simp_all

lemma linked_leaf_update [simp]: "linked (heap (leaf_update V a v s)) x = linked (heap s) x"
  by (rule linked_cong) simp_all

lemma updateValue_returns:
  assumes "updateValue V a v s = Some (Returns s')"
  shows "a < length (heap s) \<and> n_kind (heap s ! a) = Control \<and>
         priv_updateParent V a (leaf_update V a v s) = Some (Returns s')"
proof -
  from assms have a: "a < length (heap s)" "n_kind (heap s ! a) = Control"
    by (auto simp: updateValue_def split: if_splits)
  with updateValue_leaf_update[OF a, of V v] assms show ?thesis by simp
qed



section \<open>Toggling the inclusion of a child\<close>

text \<open>
  With distinct names the mapping built by \<^verbatim>\<open>_reduceValue\<close> is the list of the included
  children with their values, in the order of the child storage. Setting an optional flag
  and walking up from the group leaves the children as they are and gives the group the
  value and the status determined by the children that are included under the new flags.
\<close>

lemma update_fresh_key: "k \<notin> fst ` set al \<Longrightarrow> AList.update k v al = al @ [(k, v)]"
  by (induction al) auto

lemma priv_included_set:
  "priv_included (StringMap_set os name b) k = (if k = name then b else priv_included os k)"
  by (simp add: priv_included_def StringMap_set_def StringMap_contains_def StringMap_get_def
      isPresent_def update_conv' split: option.splits)

lemma reduce_fold_distinct:
  assumes "distinct (map fst cs)" "fst ` set cs \<inter> fst ` set acc = {}"
  shows "fold (\<lambda>(name, c) res. if priv_included os name
            then StringMap_set res name (n_value (h ! c)) else res) cs acc =
         acc @ map (\<lambda>(k, c). (k, n_value (h ! c))) (filter (\<lambda>(k, c). priv_included os k) cs)"
  using assms
proof (induction cs arbitrary: acc)
  case Nil
  show ?case by simp
next
  case (Cons kc cs)
  obtain k c where kc: "kc = (k, c)" by (cases kc)
  from Cons.prems have d: "distinct (map fst cs)" and k: "k \<notin> fst ` set cs" "k \<notin> fst ` set acc"
    and disj: "fst ` set cs \<inter> fst ` set acc = {}"
    by (auto simp: kc)
  show ?case
  proof (cases "priv_included os k")
    case True
    have "fst ` set cs \<inter> fst ` set (acc @ [(k, n_value (h ! c))]) = {}"
      using k(1) disj by auto
    from Cons.IH[OF d this] True k(2) show ?thesis
      by (simp add: kc StringMap_set_def update_fresh_key)
  next
    case False
    with Cons.IH[OF d disj] show ?thesis by (simp add: kc)
  qed
qed

lemma priv_reduceValue_distinct:
  "distinct (map fst cs) \<Longrightarrow>
   priv_reduceValue h cs os =
     JObj (map (\<lambda>(k, c). (k, n_value (h ! c))) (filter (\<lambda>(k, c). priv_included os k) cs))"
  using reduce_fold_distinct[of cs "[]" os h]
  by (simp add: priv_reduceValue_def priv_reduceChildren_def)

text \<open>
  The rule of \<^verbatim>\<open>_included\<close> is the rule of the specification, and with distinct names the
  value a container assigns to itself is the aggregation of the specification.
\<close>

lemma priv_included_spec: "priv_included os k = spec_included os k"
  by (auto simp: priv_included_def spec_included_def StringMap_contains_def StringMap_get_def
      isPresent_def dom_def split: option.splits)


lemma std_group_invalid:
  assumes "n_kind (h ! g) = ControlGroup cs os"
  shows "isPresent (std_validators GroupValidator h g) \<longleftrightarrow>
         (\<exists>(k, c)\<in>set cs. priv_included os k \<and> invalid_node (h ! c))"
  using assms by (auto simp: std_validators_def isPresent_def list_ex_iff)

lemma group_walk:
  assumes ch: "chain (heap t) g ps" and co: "containers (heap t) ps"
    and kind: "n_kind (heap t ! g) = ControlGroup cs os"
    and vd: "n_validator (heap t ! g) = GroupValidator"
    and out: "\<forall>c\<in>snd ` set cs. c \<notin> set (g # ps)"
  shows "priv_updateValue std_validators g t = Some (Returns (walk std_validators (g # ps) t)) \<and>
    n_value (heap (walk std_validators (g # ps) t) ! g) = priv_reduceValue (heap t) cs os \<and>
    n_status (heap (walk std_validators (g # ps) t) ! g) =
       Some (if (\<exists>(k, c)\<in>set cs. priv_included os k \<and> invalid_node (heap t ! c))
             then INVALID else VALID)"
proof -
  let ?V = std_validators
  let ?s' = "walk ?V (g # ps) t"
  from ch have g: "g < length (heap t)" by (simp add: chain_allocated)
  from co kind have co': "containers (heap t) (g # ps)"
    by (simp add: containers_def is_container_def)
  have agg: "aggregate (heap t) (n_kind (heap t ! g)) = Some (priv_reduceValue (heap t) cs os)"
    by (simp add: kind aggregate_def)
  let ?h0 = "modify g (\<lambda>n. n\<lparr>n_value := priv_reduceValue (heap t) cs os\<rparr>) (heap t)"
  have "heap ?s' ! g = heap (recompute ?V g t) ! g"
    using chain_not_self[OF ch] by (simp add: heap_walk_other)
  with nth_heap_recompute_same[OF g agg, of ?V] vd
  have node: "heap ?s' ! g = (heap t ! g)\<lparr>n_value := priv_reduceValue (heap t) cs os,
        n_errors := ?V GroupValidator ?h0 g,
        n_status := status_of (?V GroupValidator ?h0 g),
        n_pristine := False\<rparr>"
    by simp
  have k0: "n_kind (?h0 ! g) = ControlGroup cs os"
    using g kind by (simp add: nth_modify)
  have same: "?h0 ! c = heap t ! c" if "(k, c) \<in> set cs" for k c
  proof -
    from that have "c \<in> snd ` set cs" by force
    with out have "c \<noteq> g" by auto
    then show ?thesis by (simp add: nth_modify)
  qed
  have "isPresent (?V GroupValidator ?h0 g) \<longleftrightarrow>
      (\<exists>(k, c)\<in>set cs. priv_included os k \<and> invalid_node (heap t ! c))"
    unfolding std_group_invalid[OF k0] using same by (intro bex_cong refl) (auto simp: split_def)
  then have "n_status (heap ?s' ! g) =
       Some (if (\<exists>(k, c)\<in>set cs. priv_included os k \<and> invalid_node (heap t ! c))
             then INVALID else VALID)"
    by (simp del: walk_simps add: node status_of_def)
  moreover have "priv_updateValue ?V g t = Some (Returns ?s')"
    using ch co' by (rule priv_updateValue_chain)
  moreover have "n_value (heap ?s' ! g) = priv_reduceValue (heap t) cs os"
    by (simp del: walk_simps add: node)
  ultimately show ?thesis by blast
qed

lemma containers_cong:
  assumes "\<And>x. x \<in> set xs \<Longrightarrow> n_kind (h' ! x) = n_kind (h ! x)"
  shows "containers h' xs = containers h xs"
  using assms by (simp add: containers_def list_all_iff)

lemma set_optionals_store:
  assumes g: "g < length h" and kind: "n_kind (h ! g) = ControlGroup cs os"
  shows "n_kind (modify g (set_optionals os') h ! g) = ControlGroup cs os'"
    and "n_validator (modify g (set_optionals os') h ! b) = n_validator (h ! b)"
    and "n_parent (modify g (set_optionals os') h ! b) = n_parent (h ! b)"
    and "n_value (modify g (set_optionals os') h ! b) = n_value (h ! b)"
    and "n_status (modify g (set_optionals os') h ! b) = n_status (h ! b)"
    and "b \<noteq> g \<Longrightarrow> modify g (set_optionals os') h ! b = h ! b"
  using assms by (simp_all add: nth_modify set_optionals_kind)

lemma group_toggle:
  fixes os' :: "(string \<times> bool) list"
  assumes ch: "chain (heap s) g ps" and co: "containers (heap s) ps"
    and kind: "n_kind (heap s ! g) = ControlGroup cs os"
    and vd: "n_validator (heap s ! g) = GroupValidator"
    and out: "\<forall>c\<in>snd ` set cs. c \<notin> set (g # ps)"
    and d: "distinct (map fst cs)"
  defines "t \<equiv> s\<lparr>heap := modify g (set_optionals os') (heap s)\<rparr>"
  defines "s' \<equiv> walk std_validators (g # ps) t"
  shows "priv_updateValue std_validators g t = Some (Returns s')"
    and "n_value (heap s' ! g) =
       JObj (map (\<lambda>(k, c). (k, n_value (heap s ! c))) (filter (\<lambda>(k, c). priv_included os' k) cs))"
    and "n_status (heap s' ! g) =
       Some (if (\<exists>(k, c)\<in>set cs. priv_included os' k \<and> invalid_node (heap s ! c))
             then INVALID else VALID)"
    and "\<And>b. b \<notin> set (g # ps) \<Longrightarrow> heap s' ! b = heap s ! b"
    and "chain (heap s') g ps" and "containers (heap s') ps"
    and "n_kind (heap s' ! g) = ControlGroup cs os'"
    and "n_validator (heap s' ! g) = GroupValidator"
proof -
  from ch have g: "g < length (heap s)" by (simp add: chain_allocated)
  have "chain (heap t) g ps = chain (heap s) g ps"
    by (rule chain_cong) (simp_all add: t_def set_optionals_store[OF g kind])
  with ch have ch': "chain (heap t) g ps" by simp
  have gps: "g \<notin> set ps" using chain_not_self[OF ch] .
  have "containers (heap t) ps = containers (heap s) ps"
  proof (rule containers_cong)
    fix x assume "x \<in> set ps"
    with gps have "x \<noteq> g" by auto
    then show "n_kind (heap t ! x) = n_kind (heap s ! x)" by (simp add: t_def nth_modify)
  qed
  with co have co': "containers (heap t) ps" by simp
  have kind': "n_kind (heap t ! g) = ControlGroup cs os'"
    unfolding t_def by (simp add: set_optionals_store[OF g kind])
  have vd': "n_validator (heap t ! g) = GroupValidator"
    unfolding t_def by (simp add: set_optionals_store[OF g kind] vd)
  have same: "heap t ! c = heap s ! c" if "(k, c) \<in> set cs" for k c
  proof -
    from that have "c \<in> snd ` set cs" by force
    with out have "c \<noteq> g" by auto
    then show ?thesis unfolding t_def by (simp add: nth_modify)
  qed
  from group_walk[OF ch' co' kind' vd' out]
  have w: "priv_updateValue std_validators g t = Some (Returns s')"
    "n_value (heap s' ! g) = priv_reduceValue (heap t) cs os'"
    "n_status (heap s' ! g) =
       Some (if (\<exists>(k, c)\<in>set cs. priv_included os' k \<and> invalid_node (heap t ! c))
             then INVALID else VALID)"
    unfolding s'_def by blast+
  show "priv_updateValue std_validators g t = Some (Returns s')" by (rule w(1))
  have "map (\<lambda>(k, c). (k, n_value (heap t ! c))) (filter (\<lambda>(k, c). priv_included os' k) cs) =
        map (\<lambda>(k, c). (k, n_value (heap s ! c))) (filter (\<lambda>(k, c). priv_included os' k) cs)"
    by (rule map_cong) (auto simp: same)
  with w(2) d show "n_value (heap s' ! g) =
       JObj (map (\<lambda>(k, c). (k, n_value (heap s ! c))) (filter (\<lambda>(k, c). priv_included os' k) cs))"
    by (simp add: priv_reduceValue_distinct)
  have "(\<exists>(k, c)\<in>set cs. priv_included os' k \<and> invalid_node (heap t ! c)) \<longleftrightarrow>
        (\<exists>(k, c)\<in>set cs. priv_included os' k \<and> invalid_node (heap s ! c))"
    using same by (intro bex_cong refl) (auto simp: split_def)
  with w(3) show "n_status (heap s' ! g) =
       Some (if (\<exists>(k, c)\<in>set cs. priv_included os' k \<and> invalid_node (heap s ! c))
             then INVALID else VALID)"
    by simp
  show "heap s' ! b = heap s ! b" if "b \<notin> set (g # ps)" for b
  proof -
    from that have "heap s' ! b = heap t ! b" unfolding s'_def by (rule heap_walk_other)
    also from that have "\<dots> = heap s ! b" unfolding t_def by (simp add: nth_modify)
    finally show ?thesis .
  qed
  show "chain (heap s') g ps" unfolding s'_def using ch' by (simp del: walk_simps)
  have "containers (heap s') ps = containers (heap t) ps"
    by (rule containers_cong) (simp add: s'_def del: walk_simps)
  with co' show "containers (heap s') ps" by simp
  show "n_kind (heap s' ! g) = ControlGroup cs os'" unfolding s'_def using kind'
    by (simp del: walk_simps)
  show "n_validator (heap s' ! g) = GroupValidator" unfolding s'_def using vd'
    by (simp del: walk_simps)
qed

section \<open>Consistency of values along the path of a mutation\<close>




lemma names_ok_cong: "n_kind (h' ! a) = n_kind (h ! a) \<Longrightarrow> names_ok h' a = names_ok h a"
  by (simp add: names_ok_def)




lemma names_ok_recompute [simp]: "names_ok (heap (recompute V a s)) x = names_ok (heap s) x"
  by (rule names_ok_cong) simp





lemma names_ok_leaf_update [simp]: "names_ok (heap (leaf_update V a v s)) x = names_ok (heap s) x"
  by (rule names_ok_cong) simp







lemma prepared_chain:
  assumes len: "length h1 = length h"
    and par: "\<And>b. b \<notin> C \<Longrightarrow> n_parent (h1 ! b) = n_parent (h ! b)"
    and parC: "\<And>c. c \<in> C \<Longrightarrow> n_parent (h1 ! c) = Some a"
    and ch1: "chain h1 a ps1"
  shows "chain h a ps1"
proof -
  have xC: "x \<notin> C" if x: "x \<in> set (a # ps1)" for x
  proof
    assume "x \<in> C"
    then have "n_parent (h1 ! x) = Some a" by (rule parC)
    from chain_parent_in[OF ch1 x this] chain_not_self[OF ch1] show False by simp
  qed
  show ?thesis
    by (rule chain_cong_on[OF ch1]) (simp_all add: len par[OF xC, symmetric])
qed

text \<open>
  A mutation that returns was called on an object with finitely many ancestors: the walk
  has gone along them.
\<close>

lemma recomputing_returns_chain:
  assumes rc: "recomputes x" and ex: "exec V x s = Some (Returns s')"
  shows "\<exists>ps. chain (heap s) (receiver x) ps"
proof -
  from ex have refs: "list_all (\<lambda>a. a < length (heap s)) (refs_of x)"
    by (auto simp: exec_def split: if_splits)
  have container: "\<exists>ps. chain (heap s) a ps"
    if len: "length h1 = length (heap s)"
      and par: "\<And>b. b \<notin> C \<Longrightarrow> n_parent (h1 ! b) = n_parent (heap s ! b)"
      and parC: "\<And>c. c \<in> C \<Longrightarrow> n_parent (h1 ! c) = Some a"
      and run: "priv_updateValue V a (s\<lparr>heap := h1\<rparr>) = Some (Returns s')" for a h1 C
  proof -
    from priv_updateValue_returns_chain[OF run] obtain ps1 where "chain h1 a ps1" by auto
    from prepared_chain[OF len par parC this] show ?thesis by blast
  qed
  show ?thesis
  proof (cases x)
    case (UpdateValue a v)
    with ex refs have run: "updateValue V a v s = Some (Returns s')" by (simp add: exec_def)
    let ?t = "leaf_update V a v s"
    from updateValue_returns[OF run] have a: "a < length (heap s)"
      and up: "priv_updateParent V a ?t = Some (Returns s')" by simp_all
    show ?thesis
    proof (cases "n_parent (heap s ! a)")
      case None
      with a have "chain (heap s) a []" by simp
      then have "\<exists>ps. chain (heap s) a ps" by (rule exI)
      with UpdateValue show ?thesis by (simp add: receiver_def)
    next
      case (Some p)
      with up have "priv_updateValue V p ?t = Some (Returns s')" by (simp add: priv_updateParent_def)
      from priv_updateValue_returns_chain[OF this] obtain qs where "chain (heap ?t) p qs" by auto
      with a Some have "chain (heap s) a (p # qs)" by simp
      then have "\<exists>ps. chain (heap s) a ps" by (rule exI)
      with UpdateValue show ?thesis by (simp add: receiver_def)
    qed
  next
    case (Push arr c)
    with ex refs obtain l where l: "arr < length (heap s)" "c < length (heap s)"
      "priv_updateValue V arr (s\<lparr>heap := setParent c arr (modify arr (set_list l) (heap s))\<rparr>)
         = Some (Returns s')"
      by (auto simp: exec_def refs_of_def push_def Let_def split: kind.splits)
    have "\<exists>ps. chain (heap s) arr ps"
      by (rule container[OF _ _ _ l(3), where C = "{c}"])
         (use l in \<open>simp_all add: nth_setParent nth_modify\<close>)
    with Push show ?thesis by (simp add: receiver_def)
  next
    case (Insert arr i c)
    with ex refs obtain l where l: "arr < length (heap s)" "c < length (heap s)"
      "priv_updateValue V arr (s\<lparr>heap := setParent c arr (modify arr (set_list l) (heap s))\<rparr>)
         = Some (Returns s')"
      by (auto simp: exec_def refs_of_def insert_control_def Let_def split: kind.splits)
    have "\<exists>ps. chain (heap s) arr ps"
      by (rule container[OF _ _ _ l(3), where C = "{c}"])
         (use l in \<open>simp_all add: nth_setParent nth_modify\<close>)
    with Insert show ?thesis by (simp add: receiver_def)
  next
    case (RemoveAt arr i)
    with ex refs obtain l where l:
      "priv_updateValue V arr (s\<lparr>heap := modify arr (set_list l) (heap s)\<rparr>) = Some (Returns s')"
      by (auto simp: exec_def refs_of_def removeAt_def Let_def split: kind.splits)
    have "\<exists>ps. chain (heap s) arr ps"
      by (rule container[OF _ _ _ l, where C = "{}"]) (simp_all add: nth_modify)
    with RemoveAt show ?thesis by (simp add: receiver_def)
  next
    case (Include g name)
    with ex refs obtain os where l:
      "priv_updateValue V g (s\<lparr>heap := modify g (set_optionals os) (heap s)\<rparr>) = Some (Returns s')"
      by (auto simp: exec_def refs_of_def include_control_def split: kind.splits)
    have "\<exists>ps. chain (heap s) g ps"
      by (rule container[OF _ _ _ l, where C = "{}"]) (simp_all add: nth_modify)
    with Include show ?thesis by (simp add: receiver_def)
  next
    case (Exclude g name)
    with ex refs obtain os where l:
      "priv_updateValue V g (s\<lparr>heap := modify g (set_optionals os) (heap s)\<rparr>) = Some (Returns s')"
      by (auto simp: exec_def refs_of_def exclude_def split: kind.splits)
    have "\<exists>ps. chain (heap s) g ps"
      by (rule container[OF _ _ _ l, where C = "{}"]) (simp_all add: nth_modify)
    with Exclude show ?thesis by (simp add: receiver_def)
  qed (use rc in \<open>simp_all add: recomputes_def\<close>)
qed

section \<open>Every public operation lets the store evolve\<close>

lemma evolves_refl [simp]: "evolves h h"
  by (simp add: evolves_def)

lemma evolves_trans: "evolves h1 h2 \<Longrightarrow> evolves h2 h3 \<Longrightarrow> evolves h1 h3"
  unfolding evolves_def
  by (metis (no_types, lifting) le_trans not_le order.strict_trans2)

lemma evolvesI:
  assumes "length h' = length h"
    and "\<And>b. b < length h \<Longrightarrow> n_pristine (h' ! b) \<Longrightarrow> n_pristine (h ! b)"
    and "\<And>b. b < length h \<Longrightarrow> status_ok (h ! b) \<Longrightarrow> status_ok (h' ! b)"
  shows "evolves h h'"
  using assms by (simp add: evolves_def)

lemma evolves_modify:
  assumes "\<And>n. n_status (f n) = n_status n" "\<And>n. n_errors (f n) = n_errors n"
    and "\<And>n. n_pristine (f n) \<Longrightarrow> n_pristine n"
  shows "evolves h (modify a f h)"
  by (rule evolvesI) (auto simp: nth_modify status_ok_def assms split: if_splits)

lemma evolves_setErrorsStatus: "evolves h (setErrorsStatus V a h)"
  by (rule evolvesI) (auto simp: nth_setErrorsStatus split: if_splits)

lemma evolves_Control_setValueErrorsStatus: "evolves h (Control_setValueErrorsStatus V a v h)"
  by (rule evolvesI) (auto simp: nth_Control_setValueErrorsStatus split: if_splits)

lemma evolves_priv_setValueErrorsStatus: "evolves h (priv_setValueErrorsStatus V a h)"
  by (rule evolvesI) (auto simp: nth_priv_setValueErrorsStatus split: option.splits if_splits)

lemma evolves_setParent: "evolves h (setParent c p h)"
  unfolding setParent_def by (rule evolves_modify) simp_all

lemma evolves_recompute: "evolves (heap s) (heap (recompute V a s))"
proof -
  have "evolves (heap s) (priv_setValueErrorsStatus V a (heap s))"
    by (rule evolves_priv_setValueErrorsStatus)
  moreover have "evolves (priv_setValueErrorsStatus V a (heap s))
      (modify a (\<lambda>n. n\<lparr>n_pristine := False\<rparr>) (priv_setValueErrorsStatus V a (heap s)))"
    by (rule evolves_modify) simp_all
  ultimately show ?thesis
    by (simp add: recompute_def Let_def evolves_trans)
qed

lemma evolves_priv_updateValue:
  assumes "priv_updateValue V a s = Some r" and "evolves h0 (heap s)"
  shows "evolves h0 (heap (state_of r))"
  by (rule priv_updateValue_invariant[where I = "\<lambda>t. evolves h0 (heap t)", OF assms(1)])
     (auto intro: evolves_trans evolves_recompute assms(2))

lemma evolves_updateValidity:
  assumes "updateValidity V a s = Some r" and "evolves h0 (heap s)"
  shows "evolves h0 (heap (state_of r))"
  by (rule updateValidity_invariant[where I = "\<lambda>t. evolves h0 (heap t)", OF assms(1)])
     (auto intro: evolves_trans evolves_setErrorsStatus assms(2) simp: revalidate_def)

lemma evolves_updateValue:
  assumes "updateValue V a v s = Some r"
  shows "evolves (heap s) (heap (state_of r))"
proof (cases "a < length (heap s) \<and> n_kind (heap s ! a) = Control")
  case False
  with assms show ?thesis by (auto simp: updateValue_def)
next
  case True
  let ?h1 = "Control_setValueErrorsStatus V a v (heap s)"
  let ?h2 = "modify a (\<lambda>n. n\<lparr>n_pristine := False\<rparr>) ?h1"
  let ?s3 = "s\<lparr>heap := ?h2, emitted := emitted s @ [(a, n_value (?h2 ! a))]\<rparr>"
  have e: "evolves (heap s) (heap ?s3)"
    using evolves_trans[OF evolves_Control_setValueErrorsStatus[of "heap s" V a v]
        evolves_modify[of "\<lambda>n. n\<lparr>n_pristine := False\<rparr>" ?h1 a]] by simp
  from assms True have up: "priv_updateParent V a ?s3 = Some r"
    by (simp add: updateValue_def Let_def)
  show ?thesis
  proof (cases "n_parent (heap ?s3 ! a)")
    case None
    with up e show ?thesis by (auto simp: priv_updateParent_def)
  next
    case (Some p)
    with up have "priv_updateValue V p ?s3 = Some r" by (simp add: priv_updateParent_def)
    from evolves_priv_updateValue[OF this e] show ?thesis .
  qed
qed

lemma evolves_group_ops:
  "addControl g name c s = Some r \<Longrightarrow> evolves (heap s) (heap (state_of r))"
  "removeControl g name s = Some r \<Longrightarrow> evolves (heap s) (heap (state_of r))"
  "include_control V g name s = Some r \<Longrightarrow> evolves (heap s) (heap (state_of r))"
  "exclude V g name s = Some r \<Longrightarrow> evolves (heap s) (heap (state_of r))"
  by (auto simp: addControl_def removeControl_def include_control_def exclude_def evolves_refl
      split: kind.splits option.splits intro!: evolves_modify elim!: evolves_priv_updateValue)

lemma evolves_array_ops:
  "push V arr c s = Some r \<Longrightarrow> evolves (heap s) (heap (state_of r))"
  "insert_control V arr i c s = Some r \<Longrightarrow> evolves (heap s) (heap (state_of r))"
  "removeAt V arr i s = Some r \<Longrightarrow> evolves (heap s) (heap (state_of r))"
  by (auto simp: push_def insert_control_def removeAt_def Let_def
      split: kind.splits
      intro!: evolves_modify evolves_trans[OF evolves_modify evolves_setParent]
      elim!: evolves_priv_updateValue)

lemma evolves_append_new:
  assumes "length h' = Suc (length h)"
    and "\<And>b. b < length h \<Longrightarrow> n_pristine (h' ! b) = n_pristine (h ! b)"
    and "\<And>b. b < length h \<Longrightarrow> n_status (h' ! b) = n_status (h ! b)"
    and "\<And>b. b < length h \<Longrightarrow> n_errors (h' ! b) = n_errors (h ! b)"
    and "status_ok (h' ! length h)"
  shows "evolves h h'"
  unfolding evolves_def using assms
  by (auto simp: status_ok_def less_Suc_eq)

lemma new_node_fields [simp]:
  "n_pristine (new_node vr k)" "n_kind (new_node vr k) = k" "n_parent (new_node vr k) = None"
  "n_validator (new_node vr k) = vr"
  by (simp_all add: new_node_def)

lemma length_new_Control [simp]: "length (heap (new_Control V v vr s)) = Suc (length (heap s))"
  by (simp add: new_Control_def Let_def)

lemma length_new_ControlGroup [simp]:
  "length (heap (new_ControlGroup V cs pr os vr s)) = Suc (length (heap s))"
  by (simp add: new_ControlGroup_def Let_def)

lemma length_new_ControlArray [simp]:
  "length (heap (new_ControlArray V cs vr s)) = Suc (length (heap s))"
  by (simp add: new_ControlArray_def Let_def)

lemma new_Control_pristine: "n_pristine (heap (new_Control V v vr s) ! length (heap s))"
  by (simp add: new_Control_def Let_def nth_Control_setValueErrorsStatus)

lemma new_ControlGroup_pristine: "n_pristine (heap (new_ControlGroup V cs pr os vr s) ! length (heap s))"
  by (simp add: new_ControlGroup_def Let_def nth_priv_setValueErrorsStatus
      nth_priv_setParentForControls split: option.splits)

lemma new_ControlArray_pristine: "n_pristine (heap (new_ControlArray V cs vr s) ! length (heap s))"
  by (simp add: new_ControlArray_def Let_def nth_priv_setValueErrorsStatus
      nth_priv_setParentForControls split: option.splits)

lemma evolves_new_Control: "evolves (heap s) (heap (new_Control V v vr s))"
  by (rule evolves_append_new)
     (simp_all add: new_Control_def Let_def nth_Control_setValueErrorsStatus nth_append)

lemma evolves_new_ControlGroup: "evolves (heap s) (heap (new_ControlGroup V cs pr os vr s))"
  by (rule evolves_append_new)
     (simp_all add: new_ControlGroup_def Let_def nth_priv_setValueErrorsStatus
        nth_priv_setParentForControls nth_append aggregate_def split: option.splits)

lemma evolves_new_ControlArray: "evolves (heap s) (heap (new_ControlArray V cs vr s))"
  by (rule evolves_append_new)
     (simp_all add: new_ControlArray_def Let_def nth_priv_setValueErrorsStatus
        nth_priv_setParentForControls nth_append aggregate_def split: option.splits)

lemma evolves_exec:
  assumes "exec V x s = Some r"
  shows "evolves (heap s) (heap (state_of r))"
proof (cases "list_all (\<lambda>a. a < length (heap s)) (refs_of x)")
  case False
  with assms show ?thesis by (auto simp: exec_def)
next
  case True
  show ?thesis
  proof (cases x)
    case (NewControl v vr)
    with assms True show ?thesis by (auto simp: exec_def evolves_new_Control)
  next
    case (NewControlGroup cs os vr)
    with assms True show ?thesis by (auto simp: exec_def evolves_new_ControlGroup)
  next
    case (NewControlArray cs vr)
    with assms True show ?thesis by (auto simp: exec_def evolves_new_ControlArray)
  next
    case (SetValue a v)
    with assms True show ?thesis by (auto simp: exec_def intro!: evolves_modify)
  next
    case (SetParent a p)
    with assms True show ?thesis by (auto simp: exec_def evolves_setParent)
  next
    case (UpdateValidity a)
    with assms True have "updateValidity V a s = Some r" by (simp add: exec_def)
    then show ?thesis by (rule evolves_updateValidity) simp
  next
    case (UpdateValue a v)
    with assms True have "updateValue V a v s = Some r" by (simp add: exec_def)
    then show ?thesis by (rule evolves_updateValue)
  next
    case (AddControl g name c)
    with assms True show ?thesis by (simp add: exec_def evolves_group_ops)
  next
    case (RemoveControl g name)
    with assms True show ?thesis by (simp add: exec_def evolves_group_ops)
  next
    case (Include g name)
    with assms True show ?thesis by (simp add: exec_def evolves_group_ops)
  next
    case (Exclude g name)
    with assms True show ?thesis by (simp add: exec_def evolves_group_ops)
  next
    case (Push arr c)
    with assms True show ?thesis by (simp add: exec_def evolves_array_ops)
  next
    case (Insert arr i c)
    with assms True show ?thesis by (simp add: exec_def evolves_array_ops)
  next
    case (RemoveAt arr i)
    with assms True show ?thesis by (simp add: exec_def evolves_array_ops)
  qed
qed

lemma evolves_run: "run V xs s = Some s' \<Longrightarrow> evolves (heap s) (heap s')"
proof (induction xs arbitrary: s)
  case Nil
  then show ?case by simp
next
  case (Cons x xs)
  then obtain r where r: "exec V x s = Some r" and rest: "run V xs (state_of r) = Some s'"
    by (auto split: option.splits)
  from evolves_trans[OF evolves_exec[OF r] Cons.IH[OF rest]] show ?case .
qed

section \<open>The names of the children\<close>

lemma kind_setErrorsStatus [simp]: "n_kind (setErrorsStatus V a h ! b) = n_kind (h ! b)"
  by (simp add: nth_setErrorsStatus)

lemma kind_priv_setValueErrorsStatus [simp]:
  "n_kind (priv_setValueErrorsStatus V a h ! b) = n_kind (h ! b)"
  by (simp add: nth_priv_setValueErrorsStatus split: option.splits)

lemma kind_Control_setValueErrorsStatus [simp]:
  "n_kind (Control_setValueErrorsStatus V a v h ! b) = n_kind (h ! b)"
  by (simp add: nth_Control_setValueErrorsStatus)

lemma kind_setParent [simp]: "n_kind (setParent c p h ! b) = n_kind (h ! b)"
  by (simp add: nth_setParent)

lemma kind_priv_setParentForControls [simp]:
  "n_kind (priv_setParentForControls a cs h ! b) = n_kind (h ! b)"
  by (simp add: nth_priv_setParentForControls)

lemma object_literal_fold_names:
  "distinct (map fst acc) \<Longrightarrow> ''__proto__'' \<notin> fst ` set acc \<Longrightarrow>
   distinct (map fst (fold (\<lambda>(k, v) m. if k = ''__proto__'' then m else AList.update k v m) es acc)) \<and>
   ''__proto__'' \<notin> fst ` set (fold (\<lambda>(k, v) m. if k = ''__proto__'' then m else AList.update k v m) es acc)"
proof (induction es arbitrary: acc)
  case Nil
  then show ?case by simp
next
  case (Cons e es)
  obtain k v where e: "e = (k, v)" by (cases e)
  show ?case
  proof (cases "k = ''__proto__''")
    case True
    with e Cons show ?thesis by simp
  next
    case False
    have "distinct (map fst (AList.update k v acc))" using Cons.prems(1) by (rule distinct_update)
    moreover have "''__proto__'' \<notin> fst ` set (AList.update k v acc)"
      using Cons.prems(2) False by (simp add: dom_update)
    ultimately show ?thesis using Cons.IH[of "AList.update k v acc"] e False by simp
  qed
qed

lemma object_literal_names:
  "distinct (map fst (object_literal es)) \<and> ''__proto__'' \<notin> fst ` set (object_literal es)"
  unfolding object_literal_def by (rule object_literal_fold_names) simp_all


lemma controls_assign_names:
  assumes "distinct (map fst cs)" "''__proto__'' \<notin> fst ` set cs"
    and "controls_assign h cs p name d = Some (cs', p')"
  shows "distinct (map fst cs') \<and> ''__proto__'' \<notin> fst ` set cs'"
proof -
  have "map_of cs ''__proto__'' = None" using assms(2) by (simp add: map_of_eq_None_iff)
  with assms(3) have "cs' = cs \<or> (cs' = AList.update name d cs \<and> name \<noteq> ''__proto__'') \<or>
      cs' = AList.update ''_value'' d cs"
    by (auto simp: controls_assign_def split: if_splits option.splits)
  then show ?thesis
  proof (elim disjE conjE)
    assume "cs' = cs"
    with assms(1,2) show ?thesis by simp
  next
    assume "cs' = AList.update name d cs" "name \<noteq> ''__proto__''"
    with assms(1,2) show ?thesis by (simp add: distinct_update dom_update)
  next
    assume "cs' = AList.update ''_value'' d cs"
    with assms(1,2) show ?thesis by (simp add: distinct_update dom_update)
  qed
qed

text \<open>
  The children of a keyed container have distinct names and none of them is \<^verbatim>\<open>__proto__\<close>,
  in every store that the public operations build: neither the object literal of the
  constructor nor the assignment of \<^verbatim>\<open>addControl\<close> creates such a property. So the names
  that \<^verbatim>\<open>_reduceValue\<close> assigns to its fresh accumulator are ordinary names.
\<close>

lemma names_ok_same_kinds:
  assumes "\<forall>a<length h. names_ok h a" "length h' = length h"
    and "\<And>b. n_kind (h' ! b) = n_kind (h ! b)"
  shows "\<forall>a<length h'. names_ok h' a"
  using assms by (simp add: names_ok_def)

lemma names_ok_modify:
  assumes "\<forall>a<length h. names_ok h a"
    and "g < length h \<Longrightarrow>
       (case n_kind (f (h ! g)) of
          ControlGroup cs os \<Rightarrow> distinct (map fst cs) \<and> ''__proto__'' \<notin> fst ` set cs
        | _ \<Rightarrow> True)"
  shows "\<forall>a<length (modify g f h). names_ok (modify g f h) a"
  using assms by (auto simp: names_ok_def nth_modify)

lemma names_ok_priv_updateValue:
  assumes "priv_updateValue V a s = Some r" "\<forall>a<length (heap s). names_ok (heap s) a"
  shows "\<forall>a<length (heap (state_of r)). names_ok (heap (state_of r)) a"
  by (rule priv_updateValue_invariant[OF assms(1), where I = "\<lambda>s. \<forall>a<length (heap s). names_ok (heap s) a"])
     (simp_all add: assms(2))

lemma names_ok_updateValidity:
  assumes "updateValidity V a s = Some r" "\<forall>a<length (heap s). names_ok (heap s) a"
  shows "\<forall>a<length (heap (state_of r)). names_ok (heap (state_of r)) a"
proof (rule updateValidity_invariant[OF assms(1), where I = "\<lambda>s. \<forall>a<length (heap s). names_ok (heap s) a"])
  show "\<forall>b<length (heap (revalidate V a s)). names_ok (heap (revalidate V a s)) b"
    if "\<forall>b<length (heap s). names_ok (heap s) b" for a s
    using that by (simp add: revalidate_def names_ok_def)
qed (rule assms(2))

lemma names_ok_exec:
  assumes inv: "\<forall>a<length (heap s). names_ok (heap s) a" and ex: "exec V x s = Some r"
  shows "\<forall>a<length (heap (state_of r)). names_ok (heap (state_of r)) a"
proof (cases "list_all (\<lambda>a. a < length (heap s)) (refs_of x)")
  case False
  with ex inv show ?thesis by (auto simp: exec_def)
next
  case True
  show ?thesis
  proof (cases x)
    case (NewControl v vr)
    with ex True have r: "r = Returns (new_Control V v vr s)" by (simp add: exec_def)
    show ?thesis unfolding r
      using inv by (auto simp: new_Control_def Let_def names_ok_def nth_append less_Suc_eq)
  next
    case (NewControlGroup cs os vr)
    with ex True have r: "r = Returns (new_ControlGroup V (object_literal cs) (literal_proto cs)
        (map_option object_literal os) vr s)" by (simp add: exec_def)
    show ?thesis unfolding r
      using inv object_literal_names[of cs]
      by (auto simp: new_ControlGroup_def Let_def names_ok_def nth_append less_Suc_eq)
  next
    case (NewControlArray cs vr)
    with ex True have r: "r = Returns (new_ControlArray V cs vr s)" by (simp add: exec_def)
    show ?thesis unfolding r
      using inv by (auto simp: new_ControlArray_def Let_def names_ok_def nth_append less_Suc_eq)
  next
    case (SetValue a v)
    with ex True inv show ?thesis by (auto simp: exec_def names_ok_def nth_modify)
  next
    case (SetParent a p)
    with ex True inv show ?thesis by (auto simp: exec_def names_ok_def)
  next
    case (UpdateValidity a)
    with ex True have "updateValidity V a s = Some r" by (simp add: exec_def)
    from names_ok_updateValidity[OF this inv] show ?thesis .
  next
    case (UpdateValue a v)
    with ex True have u: "updateValue V a v s = Some r" by (simp add: exec_def)
    show ?thesis
    proof (cases "a < length (heap s) \<and> n_kind (heap s ! a) = Control")
      case False
      with u inv show ?thesis by (auto simp: updateValue_def)
    next
      case t: True
      let ?t = "leaf_update V a v s"
      from t u updateValue_leaf_update[of a s V v]
      have up: "priv_updateParent V a ?t = Some r" by simp
      have it: "\<forall>b<length (heap ?t). names_ok (heap ?t) b" using inv by (simp add: names_ok_def)
      show ?thesis
      proof (cases "n_parent (heap ?t ! a)")
        case None
        with up it show ?thesis by (auto simp: priv_updateParent_def)
      next
        case (Some p)
        with up have "priv_updateValue V p ?t = Some r" by (simp add: priv_updateParent_def)
        from names_ok_priv_updateValue[OF this it] show ?thesis .
      qed
    qed
  next
    case (AddControl g name c)
    with ex True have a: "addControl g name c s = Some r" by (simp add: exec_def)
    show ?thesis
    proof (cases "n_kind (heap s ! g)")
      case (ControlGroup cs os)
      from True AddControl have g: "g < length (heap s)" by (simp add: refs_of_def)
      with inv have "names_ok (heap s) g" by blast
      with ControlGroup have nm: "distinct (map fst cs)" "''__proto__'' \<notin> fst ` set cs"
        by (simp_all add: names_ok_def)
      show ?thesis
      proof (cases "controls_assign (heap s) cs (n_controls_proto (heap s ! g)) name c")
        case None
        with a ControlGroup inv show ?thesis by (auto simp: addControl_def)
      next
        case (Some res)
        obtain cs' p' where res: "res = (cs', p')" by (cases res)
        from controls_assign_names[OF nm Some[unfolded res]]
        have nm': "distinct (map fst cs')" "''__proto__'' \<notin> fst ` set cs'" by simp_all
        from a ControlGroup Some res
        have r: "r = Returns (s\<lparr>heap := modify g (\<lambda>n. (set_controls cs' n)\<lparr>n_controls_proto := p'\<rparr>) (heap s)\<rparr>)"
          by (simp add: addControl_def)
        show ?thesis unfolding r
          using names_ok_modify[OF inv, of g "\<lambda>n. (set_controls cs' n)\<lparr>n_controls_proto := p'\<rparr>"]
            ControlGroup nm'
          by (simp add: set_controls_def)
      qed
    qed (use a inv in \<open>auto simp: addControl_def\<close>)
  next
    case (RemoveControl g name)
    with ex True have a: "removeControl g name s = Some r" by (simp add: exec_def)
    show ?thesis
    proof (cases "n_kind (heap s ! g)")
      case (ControlGroup cs os)
      from True RemoveControl have g: "g < length (heap s)" by (simp add: refs_of_def)
      with inv have "names_ok (heap s) g" by blast
      with ControlGroup have nm: "distinct (map fst cs)" "''__proto__'' \<notin> fst ` set cs"
        by (simp_all add: names_ok_def)
      then have nm': "distinct (map fst (AList.delete name cs))"
          "''__proto__'' \<notin> fst ` set (AList.delete name cs)"
        using dom_delete_subset[of name cs] by (auto simp: distinct_delete)
      from a ControlGroup
      have r: "r = Returns (s\<lparr>heap := modify g (set_controls (StringMap_delete cs name)) (heap s)\<rparr>)"
        by (simp add: removeControl_def)
      show ?thesis unfolding r
        using names_ok_modify[OF inv, of g "set_controls (StringMap_delete cs name)"] ControlGroup nm'
        by (simp add: set_controls_def StringMap_delete_def)
    qed (use a inv in \<open>auto simp: removeControl_def\<close>)
  next
    case (Include g name)
    with ex True have a: "include_control V g name s = Some r" by (simp add: exec_def)
    show ?thesis
    proof (cases "n_kind (heap s ! g)")
      case (ControlGroup cs os)
      let ?h1 = "modify g (set_optionals (StringMap_set os name True)) (heap s)"
      from a ControlGroup have w: "priv_updateValue V g (s\<lparr>heap := ?h1\<rparr>) = Some r"
        by (simp add: include_control_def)
      from True Include have "g < length (heap s)" by (simp add: refs_of_def)
      with inv have "names_ok (heap s) g" by blast
      with ControlGroup have nm: "distinct (map fst cs)" "''__proto__'' \<notin> fst ` set cs"
        by (simp_all add: names_ok_def)
      have "\<forall>a<length ?h1. names_ok ?h1 a"
        by (rule names_ok_modify[OF inv]) (simp add: ControlGroup set_optionals_def nm)
      with names_ok_priv_updateValue[OF w] show ?thesis by simp
    qed (use a inv in \<open>auto simp: include_control_def\<close>)
  next
    case (Exclude g name)
    with ex True have a: "exclude V g name s = Some r" by (simp add: exec_def)
    show ?thesis
    proof (cases "n_kind (heap s ! g)")
      case (ControlGroup cs os)
      let ?h1 = "modify g (set_optionals (StringMap_set os name False)) (heap s)"
      from a ControlGroup have w: "priv_updateValue V g (s\<lparr>heap := ?h1\<rparr>) = Some r"
        by (simp add: exclude_def)
      from True Exclude have "g < length (heap s)" by (simp add: refs_of_def)
      with inv have "names_ok (heap s) g" by blast
      with ControlGroup have nm: "distinct (map fst cs)" "''__proto__'' \<notin> fst ` set cs"
        by (simp_all add: names_ok_def)
      have "\<forall>a<length ?h1. names_ok ?h1 a"
        by (rule names_ok_modify[OF inv]) (simp add: ControlGroup set_optionals_def nm)
      with names_ok_priv_updateValue[OF w] show ?thesis by simp
    qed (use a inv in \<open>auto simp: exclude_def\<close>)
  next
    case (Push arr c)
    with ex True have a: "push V arr c s = Some r" by (simp add: exec_def)
    show ?thesis
    proof (cases "n_kind (heap s ! arr)")
      case (ControlArray l)
      let ?h1 = "setParent c arr (modify arr (set_list (l @ [c])) (heap s))"
      from a ControlArray have w: "priv_updateValue V arr (s\<lparr>heap := ?h1\<rparr>) = Some r"
        by (simp add: push_def Let_def)
      have m: "\<forall>a<length (modify arr (set_list (l @ [c])) (heap s)).
          names_ok (modify arr (set_list (l @ [c])) (heap s)) a"
        by (rule names_ok_modify[OF inv]) (simp add: ControlArray set_list_def)
      have "\<forall>a<length ?h1. names_ok ?h1 a"
        by (rule names_ok_same_kinds[OF m]) simp_all
      with names_ok_priv_updateValue[OF w] show ?thesis by simp
    qed (use a inv in \<open>auto simp: push_def\<close>)
  next
    case (Insert arr i c)
    with ex True have a: "insert_control V arr i c s = Some r" by (simp add: exec_def)
    show ?thesis
    proof (cases "n_kind (heap s ! arr)")
      case (ControlArray l)
      let ?h1 = "setParent c arr (modify arr (set_list (ListWrapper_insert l i c)) (heap s))"
      from a ControlArray have w: "priv_updateValue V arr (s\<lparr>heap := ?h1\<rparr>) = Some r"
        by (simp add: insert_control_def Let_def)
      have m: "\<forall>a<length (modify arr (set_list (ListWrapper_insert l i c)) (heap s)).
          names_ok (modify arr (set_list (ListWrapper_insert l i c)) (heap s)) a"
        by (rule names_ok_modify[OF inv]) (simp add: ControlArray set_list_def)
      have "\<forall>a<length ?h1. names_ok ?h1 a"
        by (rule names_ok_same_kinds[OF m]) simp_all
      with names_ok_priv_updateValue[OF w] show ?thesis by simp
    qed (use a inv in \<open>auto simp: insert_control_def\<close>)
  next
    case (RemoveAt arr i)
    with ex True have a: "removeAt V arr i s = Some r" by (simp add: exec_def)
    show ?thesis
    proof (cases "n_kind (heap s ! arr)")
      case (ControlArray l)
      let ?h1 = "modify arr (set_list (ListWrapper_removeAt l i)) (heap s)"
      from a ControlArray have w: "priv_updateValue V arr (s\<lparr>heap := ?h1\<rparr>) = Some r"
        by (simp add: removeAt_def Let_def)
      have "\<forall>a<length ?h1. names_ok ?h1 a"
        by (rule names_ok_modify[OF inv]) (simp add: ControlArray set_list_def)
      with names_ok_priv_updateValue[OF w] show ?thesis by simp
    qed (use a inv in \<open>auto simp: removeAt_def\<close>)
  qed
qed

lemma names_ok_run:
  "run V xs s = Some s' \<Longrightarrow> \<forall>a<length (heap s). names_ok (heap s) a \<Longrightarrow>
   \<forall>a<length (heap s'). names_ok (heap s') a"
proof (induction xs arbitrary: s)
  case Nil
  then show ?case by simp
next
  case (Cons x xs)
  from Cons.prems(1) obtain r where r: "exec V x s = Some r" "run V xs (state_of r) = Some s'"
    by (auto split: option.splits)
  from Cons.IH[OF r(2) names_ok_exec[OF Cons.prems(2) r(1)]] show ?case .
qed

lemma reachable_names_ok:
  "run V xs init_state = Some s \<Longrightarrow> a < length (heap s) \<Longrightarrow> names_ok (heap s) a"
  using names_ok_run[of V xs init_state s] by (simp add: init_state_def)

section \<open>The example trees are built by the constructors\<close>

lemmas eval_defs = exec_def refs_of_def new_Control_def new_ControlGroup_def new_ControlArray_def
  Control_setValueErrorsStatus_def setErrorsStatus_def modify_def new_node_def init_state_def
  priv_setParentForControls_def setParent_def priv_setValueErrorsStatus_def priv_reduceValue_def
  priv_reduceChildren_def priv_included_def StringMap_set_def StringMap_get_def StringMap_contains_def
  object_literal_def literal_proto_def StringMap_delete_def isPresent_def std_validators_def invalid_node_def
  VALID_def INVALID_def Let_def updateValue_def priv_updateParent_def recompute_def is_container_def
  priv_updateValue.simps updateValidity.simps addControl_def removeControl_def include_control_def
  exclude_def push_def insert_control_def removeAt_def set_controls_def set_optionals_def set_list_def
  ListWrapper_insert_def ListWrapper_removeAt_def revalidate_def containers_def leaf_update_def
  walk_def

lemma tree3_built: "run std_validators tree3_ops init_state = Some tree3"
  by (simp add: tree3_ops_def tree3_def eval_defs)


lemma tree3_null_built:
  "run std_validators (tree3_ops @ [UpdateValue 0 JNull]) init_state = Some tree3_null"
  by (simp add: tree3_ops_def tree3_def tree3_null_def eval_defs)

lemma scenario_F_built: "run std_validators scenario_F_ops init_state = Some scenario_F"
  by (simp add: scenario_F_ops_def scenario_F_def eval_defs)

lemma tree3_stale_built: "run std_validators [SetValue 0 JNull] tree3 = Some tree3_stale"
  by (simp add: tree3_def tree3_stale_def eval_defs)

lemma tree3_chain: "chain (heap tree3) 0 [1, 2]"
  by (simp add: tree3_def)

lemma tree3_stale_chain: "chain (heap tree3_stale) 0 [1, 2]"
  by (simp add: tree3_stale_def)

lemma scenario_D_built: "run std_validators scenario_D_ops init_state = Some scenario_D"
  by (simp add: scenario_D_ops_def scenario_D_def eval_defs)

lemmas tree_defs = tree_ok_def consistent_at_def spec_aggregate_def spec_included_def aggregate_def
  children_of_def All_less_Suc
  fresh_at_def

lemmas path_defs = path_ok_def linked_def names_ok_def consistent_at_def spec_aggregate_def
  spec_included_def children_of_def All_less_Suc fresh_at_def


lemma tree3_ok: "tree_ok (heap tree3)"
  by (simp add: tree3_def tree_defs eval_defs)

lemma scenario_D_ok: "tree_ok (heap scenario_D)"
  by (simp add: scenario_D_def tree_defs eval_defs)


lemma scenario_B_built: "run std_validators scenario_B_ops init_state = Some scenario_B"
  by (simp add: scenario_B_ops_def scenario_B_def eval_defs)

lemma scenario_B_ok: "tree_ok (heap scenario_B)"
  by (simp add: scenario_B_def tree_defs eval_defs)

section \<open>Locating a descendant\<close>

lemma find_step_None: "foldl (find_step h) None segs = None"
  by (induction segs) (simp_all add: find_step_def)

lemma find_step_NotControl: "foldl (find_step h) (Some NotControl) segs = Some NotControl \<longleftrightarrow> segs = []"
  by (cases segs) (simp_all add: find_step_def find_step_None)

text \<open>
  What \<^verbatim>\<open>find\<close> does on the names that are own properties of the children object or are
  found nowhere on its prototype chain: the empty path yields the container itself, a
  path string is the list of its segments between the \<^verbatim>\<open>/\<close>, a path with first segment
  \<open>name\<close> continues from the child stored under \<open>name\<close>, and the result is absent when the
  current node is not a keyed container or the name is found nowhere.
\<close>

lemma find_own_properties:
  "find h g (PathList []) = Some (Ref g)"
  "find h g (PathString str) = find h g (PathList (StringWrapper_split str))"
  "n_kind (h ! g) = ControlGroup cs os \<Longrightarrow> map_of cs name = Some c \<Longrightarrow>
     find h g (PathList (name # rest)) = find h c (PathList rest)"
  "n_kind (h ! g) = ControlGroup cs os \<Longrightarrow> map_of cs name = None \<Longrightarrow>
     n_controls_proto (h ! g) = None \<Longrightarrow> name \<notin> set Object_prototype_names \<Longrightarrow> name \<noteq> ''__proto__'' \<Longrightarrow>
     find h g (PathList (name # rest)) = None"
  "\<forall>cs os. n_kind (h ! g) \<noteq> ControlGroup cs os \<Longrightarrow> find h g (PathList (name # rest)) = None"
  by (auto simp: find_def find_step_def find_step_None controls_get_def proto_get_def isPresent_def
      split: kind.splits option.splits)

lemma find_scenario_F:
  "find (heap scenario_F) 2 (PathString ''a/b'') = Some (Ref 0)"
  "find (heap scenario_F) 2 (PathString ''a/x'') = None"
  "find (heap scenario_F) 2 (PathList [''a'', ''b'', ''c'']) = None"
  by (simp_all add: scenario_F_def StringWrapper_split_def find_def find_step_def controls_get_def
      proto_get_def Object_prototype_names_def isPresent_def)

text \<open>
  Claim C9. \<^verbatim>\<open>find\<close> is to yield an absent result for every segment under which the
  current keyed container has no child. The reducer reads \<^verbatim>\<open>v.controls[name]\<close> with the
  bracket operator, which follows the prototype chain of the children object, whereas
  \<^verbatim>\<open>contains\<close> asks \<^verbatim>\<open>StringMapWrapper.contains\<close> for an own property. On the root of scenario
  F, whose only child is \<^verbatim>\<open>a\<close>, \<^verbatim>\<open>find("constructor")\<close> returns a present value that is no
  control (the function \<^verbatim>\<open>Object\<close>), and so do \<^verbatim>\<open>find("a/toString")\<close> and
  \<^verbatim>\<open>find(["a", "b", "hasOwnProperty"])\<close>, although \<^verbatim>\<open>contains\<close> denies each of these names
  and no child was ever stored under them.
\<close>

theorem find_returns_inherited_member:
  "run std_validators scenario_F_ops init_state = Some scenario_F \<and>
   n_kind (heap scenario_F ! 2) = ControlGroup [(''a'', 1)] [] \<and>
   n_controls_proto (heap scenario_F ! 2) = None \<and>
   \<not> contains (heap scenario_F) 2 ''constructor'' \<and>
   find (heap scenario_F) 2 (PathString ''constructor'') = Some NotControl \<and>
   find (heap scenario_F) 2 (PathString ''a/toString'') = Some NotControl \<and>
   find (heap scenario_F) 2 (PathList [''a'', ''b'', ''hasOwnProperty'']) = Some NotControl \<and>
   find (heap scenario_F) 2 (PathString ''a/b'') = Some (Ref 0) \<and>
   find (heap scenario_F) 2 (PathString ''a/x'') = None"
  using scenario_F_built
  by (simp add: scenario_F_def StringWrapper_split_def find_def find_step_def controls_get_def
      proto_get_def Object_prototype_names_def isPresent_def contains_def StringMap_contains_def)

section \<open>Status and pristine flag along a client session\<close>

text \<open>
  Claim C2. In every store reached from the empty store by public operations (constructors
  and methods, whatever order, also after an operation that raised), every node has status
  \<^verbatim>\<open>INVALID\<close> exactly when its error map is present, and its status is one of the two
  strings \<^verbatim>\<open>VALID\<close> and \<^verbatim>\<open>INVALID\<close>.
\<close>

theorem status_invariant:
  assumes "run V xs init_state = Some s" and "a < length (heap s)"
  shows "(n_status (heap s ! a) = Some INVALID \<longleftrightarrow> isPresent (n_errors (heap s ! a))) \<and>
         (n_status (heap s ! a) = Some VALID \<or> n_status (heap s ! a) = Some INVALID)"
proof -
  from evolves_run[OF assms(1)] assms(2) have "status_ok (heap s ! a)"
    by (simp add: evolves_def init_state_def)
  then show ?thesis
    by (auto simp: status_ok_def status_of_def VALID_def INVALID_def)
qed

theorem status_invariant_witness:
  "run std_validators (tree3_ops @ [UpdateValue 0 JNull]) init_state = Some tree3_null \<and>
   (0::nat) < length (heap tree3_null) \<and>
   n_status (heap tree3_null ! 0) = Some INVALID \<and>
   isPresent (n_errors (heap tree3_null ! 0)) \<and>
   (1::nat) < length (heap tree3) \<and>
   n_status (heap tree3 ! 1) = Some VALID \<and>
   \<not> isPresent (n_errors (heap tree3 ! 1))"
  using status_invariant[OF tree3_null_built, of 0] status_invariant[OF tree3_built, of 1]
    tree3_null_built
  by (simp add: tree3_null_def tree3_def isPresent_def VALID_def INVALID_def)

text \<open>
  Claim C7. A node is pristine when its constructor returns, and a node that is not
  pristine (dirty) is not pristine after any further sequence of public operations.
\<close>

theorem pristine_monotone:
  "(exec V (NewControl v vr) s = Some (Returns s') \<longrightarrow> n_pristine (heap s' ! length (heap s))) \<and>
   (exec V (NewControlGroup cs os vr) s = Some (Returns s') \<longrightarrow> n_pristine (heap s' ! length (heap s))) \<and>
   (exec V (NewControlArray l vr) s = Some (Returns s') \<longrightarrow> n_pristine (heap s' ! length (heap s))) \<and>
   (run V xs s = Some s' \<and> a < length (heap s) \<and> \<not> n_pristine (heap s ! a) \<longrightarrow>
      a < length (heap s') \<and> \<not> n_pristine (heap s' ! a))"
proof (intro conjI impI)
  assume "exec V (NewControl v vr) s = Some (Returns s')"
  then show "n_pristine (heap s' ! length (heap s))"
    by (auto simp: exec_def refs_of_def new_Control_pristine split: if_splits)
next
  assume "exec V (NewControlGroup cs os vr) s = Some (Returns s')"
  then show "n_pristine (heap s' ! length (heap s))"
    by (auto simp: exec_def refs_of_def new_ControlGroup_pristine split: if_splits)
next
  assume "exec V (NewControlArray l vr) s = Some (Returns s')"
  then show "n_pristine (heap s' ! length (heap s))"
    by (auto simp: exec_def refs_of_def new_ControlArray_pristine split: if_splits)
next
  assume a: "run V xs s = Some s' \<and> a < length (heap s) \<and> \<not> n_pristine (heap s ! a)"
  with evolves_run[of V xs s s'] show "a < length (heap s')"
    by (simp add: evolves_def)
  from a evolves_run[of V xs s s'] show "\<not> n_pristine (heap s' ! a)"
    by (auto simp add: evolves_def)
qed

theorem pristine_monotone_witness:
  "exec std_validators (NewControl (JNum 5) RequiredValidator) init_state =
     Some (Returns \<lparr>heap = [\<lparr>n_value = JNum 5, n_status = Some ''VALID'', n_errors = None,
        n_pristine = True, n_parent = None, n_validator = RequiredValidator, n_kind = Control, n_controls_proto = None\<rparr>],
        emitted = []\<rparr>) \<and>
   run std_validators [UpdateValue 0 (JNum 1), SetValue 0 (JNum 2), UpdateValidity 1] tree3_null =
     Some (tree3_null\<lparr>heap := (heap tree3_null)[0 := (heap tree3_null ! 0)\<lparr>n_value := JNum 2,
        n_status := Some ''VALID'', n_errors := None\<rparr>,
        1 := (heap tree3_null ! 1)\<lparr>n_value := JObj [(''x'', JNum 1)], n_status := Some ''VALID'', n_errors := None\<rparr>,
        2 := (heap tree3_null ! 2)\<lparr>n_value := JObj [(''m'', JObj [(''x'', JNum 1)])],
           n_status := Some ''VALID'', n_errors := None\<rparr>],
        emitted := emitted tree3_null @ [(0, JNum 1), (1, JObj [(''x'', JNum 1)]),
           (2, JObj [(''m'', JObj [(''x'', JNum 1)])])]\<rparr>) \<and>
   (1::nat) < length (heap tree3_null) \<and>
   \<not> n_pristine (heap tree3_null ! 1) \<and>
   \<not> n_pristine (heap (tree3_null\<lparr>heap := (heap tree3_null)[0 := (heap tree3_null ! 0)\<lparr>n_value := JNum 2,
        n_status := Some ''VALID'', n_errors := None\<rparr>,
        1 := (heap tree3_null ! 1)\<lparr>n_value := JObj [(''x'', JNum 1)], n_status := Some ''VALID'', n_errors := None\<rparr>,
        2 := (heap tree3_null ! 2)\<lparr>n_value := JObj [(''m'', JObj [(''x'', JNum 1)])],
           n_status := Some ''VALID'', n_errors := None\<rparr>]\<rparr>) ! 1)"
  using pristine_monotone[of std_validators "JNum 5" RequiredValidator init_state
      "\<lparr>heap = [\<lparr>n_value = JNum 5, n_status = Some ''VALID'', n_errors = None,
        n_pristine = True, n_parent = None, n_validator = RequiredValidator, n_kind = Control, n_controls_proto = None\<rparr>],
        emitted = []\<rparr>" "[]" None "[]"
      "[UpdateValue 0 (JNum 1), SetValue 0 (JNum 2), UpdateValidity 1]" 1]
  by (simp add: tree3_null_def eval_defs)

section \<open>Recomputing validity\<close>

text \<open>
  Claim C3. \<^verbatim>\<open>updateValidity\<close> on a node whose ancestors are \<open>ps\<close> (up to the root) returns
  after revalidating the node and then every ancestor in turn, the root included, whether or
  not a status changed on the way: the result is the composition of the single steps over
  \<open>a # ps\<close>. A single step assigns to \<^verbatim>\<open>_errors\<close> what the node's validator returns on the
  current store and derives \<^verbatim>\<open>_status\<close> from it; in the final store every visited node has
  the status that its errors determine.
\<close>

theorem updateValidity_walks_to_root:
  assumes "chain (heap s) a ps"
  shows "updateValidity V a s = Some (Returns (foldl (\<lambda>t x. revalidate V x t) s (a # ps))) \<and>
    heap (revalidate V a s) ! a =
      (heap s ! a)\<lparr>n_errors := V (n_validator (heap s ! a)) (heap s) a,
         n_status := Some (if isPresent (V (n_validator (heap s ! a)) (heap s) a) then INVALID else VALID)\<rparr> \<and>
    (\<forall>x\<in>set (a # ps).
       n_status (heap (foldl (\<lambda>t x. revalidate V x t) s (a # ps)) ! x) =
         Some (if isPresent (n_errors (heap (foldl (\<lambda>t x. revalidate V x t) s (a # ps)) ! x))
               then INVALID else VALID))"
proof (intro conjI ballI)
  show "updateValidity V a s = Some (Returns (foldl (\<lambda>t x. revalidate V x t) s (a # ps)))"
    using assms by (rule updateValidity_chain)
  from chain_allocated[OF assms]
  show "heap (revalidate V a s) ! a =
      (heap s ! a)\<lparr>n_errors := V (n_validator (heap s ! a)) (heap s) a,
         n_status := Some (if isPresent (V (n_validator (heap s ! a)) (heap s) a) then INVALID else VALID)\<rparr>"
    by (simp add: revalidate_def nth_setErrorsStatus status_of_def)
next
  fix x assume x: "x \<in> set (a # ps)"
  with chain_allocated[OF assms] have "x < length (heap s)" by auto
  from status_ok_foldl_revalidate[OF x this, of V]
  show "n_status (heap (foldl (\<lambda>t x. revalidate V x t) s (a # ps)) ! x) =
         Some (if isPresent (n_errors (heap (foldl (\<lambda>t x. revalidate V x t) s (a # ps)) ! x))
               then INVALID else VALID)"
    by (simp add: status_ok_def status_of_def)
qed

theorem updateValidity_walks_to_root_witness:
  "chain (heap tree3_stale) 0 [1, 2] \<and>
   updateValidity std_validators 0 tree3_stale = Some (Returns tree3_revalidated) \<and>
   n_status (heap tree3_revalidated ! 2) = Some INVALID \<and>
   chain (heap tree3) 0 [1, 2] \<and>
   updateValidity std_validators 0 tree3 = Some (Returns tree3)"
  using updateValidity_walks_to_root[OF tree3_stale_chain, of std_validators]
    updateValidity_walks_to_root[OF tree3_chain, of std_validators]
    tree3_stale_chain tree3_chain
  by (simp add: tree3_stale_def tree3_revalidated_def tree3_def eval_defs)

text \<open>
  Claim C10. A call of \<^verbatim>\<open>updateValidity\<close> (with the upward walk, and whether it returns or
  raises) changes nothing but \<^verbatim>\<open>_errors\<close> and \<^verbatim>\<open>_status\<close>: the log of emissions and the
  size of the store are the same, every node keeps its value, pristine flag, child storage,
  parent and validator, and a node that is neither the receiver nor one of its ancestors
  is unchanged altogether.
\<close>

theorem updateValidity_frame:
  assumes "updateValidity V a s = Some r"
  shows "emitted (state_of r) = emitted s \<and>
    length (heap (state_of r)) = length (heap s) \<and>
    (\<forall>b. n_value (heap (state_of r) ! b) = n_value (heap s ! b) \<and>
         n_pristine (heap (state_of r) ! b) = n_pristine (heap s ! b) \<and>
         n_kind (heap (state_of r) ! b) = n_kind (heap s ! b) \<and>
         n_parent (heap (state_of r) ! b) = n_parent (heap s ! b) \<and>
         n_validator (heap (state_of r) ! b) = n_validator (heap s ! b)) \<and>
    (\<forall>ps b. chain (heap s) a ps \<and> b \<notin> set (a # ps) \<longrightarrow> heap (state_of r) ! b = heap s ! b)"
proof -
  let ?I = "\<lambda>t. emitted t = emitted s \<and> length (heap t) = length (heap s) \<and>
    (\<forall>b. n_value (heap t ! b) = n_value (heap s ! b) \<and>
         n_pristine (heap t ! b) = n_pristine (heap s ! b) \<and>
         n_kind (heap t ! b) = n_kind (heap s ! b) \<and>
         n_parent (heap t ! b) = n_parent (heap s ! b) \<and>
         n_validator (heap t ! b) = n_validator (heap s ! b))"
  have "?I (state_of r)"
    by (rule updateValidity_invariant[where I = ?I, OF assms])
       (simp_all add: revalidate_def nth_setErrorsStatus)
  moreover have "heap (state_of r) ! b = heap s ! b" if "chain (heap s) a ps" "b \<notin> set (a # ps)" for ps b
  proof -
    from updateValidity_chain[OF that(1), of V] assms
    have "state_of r = foldl (\<lambda>t x. revalidate V x t) s (a # ps)" by simp
    with heap_foldl_revalidate_other[OF that(2), of V s] show ?thesis by simp
  qed
  ultimately show ?thesis by blast
qed

theorem updateValidity_frame_witness:
  "updateValidity std_validators 0 tree3_stale = Some (Returns tree3_revalidated) \<and>
   emitted tree3_revalidated = emitted tree3_stale \<and>
   n_value (heap tree3_revalidated ! 1) = n_value (heap tree3_stale ! 1) \<and>
   n_status (heap tree3_revalidated ! 1) \<noteq> n_status (heap tree3_stale ! 1) \<and>
   chain (heap tree3_stale) 1 [2] \<and> (0::nat) \<notin> set [1, 2] \<and>
   updateValidity std_validators 1 tree3_stale = Some (Returns tree3_stale)"
proof -
  have r0: "updateValidity std_validators 0 tree3_stale = Some (Returns tree3_revalidated)"
    by (simp add: tree3_stale_def tree3_revalidated_def eval_defs)
  have r1: "updateValidity std_validators 1 tree3_stale = Some (Returns tree3_stale)"
    by (simp add: tree3_stale_def eval_defs)
  have c: "chain (heap tree3_stale) 1 [2]"
    by (simp add: tree3_stale_def)
  from updateValidity_frame[OF r0] updateValidity_frame[OF r1] r0 r1 c show ?thesis
    by (simp add: tree3_stale_def tree3_revalidated_def)
qed

section \<open>Updating a leaf\<close>

text \<open>
  Claim C6. On a leaf whose ancestors \<open>ps\<close> are containers, \<^verbatim>\<open>updateValue(v)\<close> for any value
  \<open>v\<close> (\<^verbatim>\<open>null\<close> included) assigns the value, recomputes errors and status with the
  validator, clears the pristine flag, emits \<open>v\<close> and only then calls \<^verbatim>\<open>_updateParent\<close>
  (first conjunct: the call equals \<^verbatim>\<open>_updateParent\<close> on the store and log so prepared). The
  call returns and does not raise; in the store it returns the leaf holds \<open>v\<close>, the errors
  its validator found for \<open>v\<close>, the status these errors determine and a cleared pristine
  flag, and the log has grown by the emission of the leaf followed by one emission of each
  ancestor.
\<close>

theorem leaf_updateValue_accepts:
  assumes "n_kind (heap s ! a) = Control" and "chain (heap s) a ps" and "containers (heap s) ps"
  shows "updateValue V a v s = priv_updateParent V a (leaf_update V a v s) \<and>
    (\<exists>s'. updateValue V a v s = Some (Returns s') \<and>
       n_value (heap s' ! a) = v \<and>
       n_errors (heap s' ! a) =
          V (n_validator (heap s ! a)) (modify a (\<lambda>n. n\<lparr>n_value := v\<rparr>) (heap s)) a \<and>
       n_status (heap s' ! a) = Some (if isPresent (n_errors (heap s' ! a)) then INVALID else VALID) \<and>
       \<not> n_pristine (heap s' ! a) \<and>
       emitted s' = emitted s @ (a, v) # map (\<lambda>x. (x, n_value (heap s' ! x))) ps)"
proof -
  from assms(2) have a: "a < length (heap s)" by (simp add: chain_allocated)
  let ?s' = "walk V ps (leaf_update V a v s)"
  from chain_distinct[OF assms(2)] have d: "a \<notin> set ps" "distinct ps" by simp_all
  have node: "heap ?s' ! a = heap (leaf_update V a v s) ! a"
    using d(1) by (rule heap_walk_other)
  have "updateValue V a v s = Some (Returns ?s')"
    using assms by (rule updateValue_chain)
  moreover have "n_value (heap ?s' ! a) = v" "\<not> n_pristine (heap ?s' ! a)"
    "n_errors (heap ?s' ! a) =
          V (n_validator (heap s ! a)) (modify a (\<lambda>n. n\<lparr>n_value := v\<rparr>) (heap s)) a"
    "n_status (heap ?s' ! a) = Some (if isPresent (n_errors (heap ?s' ! a)) then INVALID else VALID)"
    using a by (simp_all add: node) (simp_all add: leaf_update_def Let_def nth_modify)
  moreover have "emitted ?s' = emitted s @ (a, v) # map (\<lambda>x. (x, n_value (heap ?s' ! x))) ps"
    using emitted_walk[OF d(2), of V "leaf_update V a v s"] by simp
  moreover have "updateValue V a v s = priv_updateParent V a (leaf_update V a v s)"
    using a assms(1) by (rule updateValue_leaf_update)
  ultimately show ?thesis by blast
qed

theorem leaf_updateValue_accepts_witness:
  "n_kind (heap tree3 ! 0) = Control \<and> chain (heap tree3) 0 [1, 2] \<and>
   containers (heap tree3) [1, 2] \<and>
   updateValue std_validators 0 JNull tree3 = Some (Returns tree3_null) \<and>
   n_value (heap tree3_null ! 0) = JNull \<and>
   n_status (heap tree3_null ! 0) = Some INVALID \<and>
   n_errors (heap tree3_null ! 0) = Some [(''required'', JBool True)]"
proof -
  have k: "n_kind (heap tree3 ! 0) = Control" by (simp add: tree3_def)
  have c: "containers (heap tree3) [1, 2]" by (simp add: tree3_def eval_defs)
  have r: "updateValue std_validators 0 JNull tree3 = Some (Returns tree3_null)"
    by (simp add: tree3_def tree3_null_def eval_defs)
  from leaf_updateValue_accepts[OF k tree3_chain c, of std_validators JNull] k c r tree3_chain
  show ?thesis
    by (simp add: tree3_null_def INVALID_def)
qed

section \<open>Order of the emissions\<close>

text \<open>
  Claim C4. In a three-level tree, a leaf \<open>a\<close> whose parent is the keyed container \<open>m\<close>,
  whose parent is the keyed container \<open>r\<close>, the root (the parent references are those
  that the constructors of the containers set on their children), one \<^verbatim>\<open>updateValue\<close> on the
  leaf returns with exactly three new entries in the log of emissions: the leaf, then the
  middle container, then the root, each with the value the node holds when the call
  returns.
\<close>

theorem three_level_emissions:
  assumes "a < length (heap s)" and "n_kind (heap s ! a) = Control"
    and "n_parent (heap s ! a) = Some m"
    and "m < length (heap s)" and "n_kind (heap s ! m) = ControlGroup cm om"
    and "n_parent (heap s ! m) = Some r"
    and "r < length (heap s)" and "n_kind (heap s ! r) = ControlGroup cr opr"
    and "n_parent (heap s ! r) = None"
  shows "\<exists>s'. updateValue V a v s = Some (Returns s') \<and>
    emitted s' = emitted s @
       [(a, n_value (heap s' ! a)), (m, n_value (heap s' ! m)), (r, n_value (heap s' ! r))] \<and>
    n_value (heap s' ! a) = v"
proof -
  from assms have c: "chain (heap s) a [m, r]" by simp
  from assms have k: "containers (heap s) [m, r]" by (simp add: containers_def is_container_def)
  let ?s' = "walk V [m, r] (leaf_update V a v s)"
  from chain_distinct[OF c] have d: "a \<notin> set [m, r]" "distinct [m, r]" by simp_all
  have "heap ?s' ! a = heap (leaf_update V a v s) ! a"
    using d(1) by (rule heap_walk_other)
  with assms(1) have val: "n_value (heap ?s' ! a) = v" by (simp add: leaf_update_def Let_def nth_modify)
  have "updateValue V a v s = Some (Returns ?s')"
    using assms(2) c k by (rule updateValue_chain)
  moreover have "emitted ?s' = emitted s @
       [(a, n_value (heap ?s' ! a)), (m, n_value (heap ?s' ! m)), (r, n_value (heap ?s' ! r))]"
    using emitted_walk[OF d(2), of V "leaf_update V a v s"] val by simp
  ultimately show ?thesis using val by blast
qed

theorem three_level_emissions_witness:
  "run std_validators tree3_ops init_state = Some tree3 \<and>
   n_kind (heap tree3 ! 0) = Control \<and> n_parent (heap tree3 ! 0) = Some 1 \<and>
   n_kind (heap tree3 ! 1) = ControlGroup [(''x'', 0)] [] \<and> n_parent (heap tree3 ! 1) = Some 2 \<and>
   n_kind (heap tree3 ! 2) = ControlGroup [(''m'', 1)] [] \<and> n_parent (heap tree3 ! 2) = None \<and>
   updateValue std_validators 0 JNull tree3 = Some (Returns tree3_null) \<and>
   emitted tree3_null =
     [(0, JNull), (1, JObj [(''x'', JNull)]), (2, JObj [(''m'', JObj [(''x'', JNull)])])]"
  using three_level_emissions[of 0 tree3 1 "[(''x'', 0)]" "[]" 2 "[(''m'', 1)]" "[]" std_validators JNull]
    tree3_built
  by (simp add: tree3_def tree3_null_def eval_defs)

section \<open>Structural changes of the containers\<close>

text \<open>
  The store when \<^verbatim>\<open>push\<close>, \<^verbatim>\<open>insert\<close> or \<^verbatim>\<open>removeAt\<close> calls \<^verbatim>\<open>_updateValue\<close>: the list of the
  container is \<open>l'\<close> and the objects of \<open>C\<close> have the container as parent.
\<close>

lemma array_walk:
  assumes kind: "n_kind (heap s ! arr) = ControlArray l"
    and ch: "chain (heap s) arr ps" and cont: "containers (heap s) ps"
    and C: "\<And>c. c \<in> C \<Longrightarrow> c \<notin> set (arr # ps)"
    and len: "length h1 = length (heap s)"
    and k1: "n_kind (h1 ! arr) = ControlArray l'"
    and kind1: "\<And>b. b \<noteq> arr \<Longrightarrow> n_kind (h1 ! b) = n_kind (heap s ! b)"
    and val: "\<And>b. n_value (h1 ! b) = n_value (heap s ! b)"
    and par: "\<And>b. b \<notin> C \<Longrightarrow> n_parent (h1 ! b) = n_parent (heap s ! b)"
  shows "\<exists>s'. priv_updateValue V arr (s\<lparr>heap := h1\<rparr>) = Some (Returns s') \<and>
           n_kind (heap s' ! arr) = ControlArray l' \<and>
           (\<forall>b. n_parent (heap s' ! b) = n_parent (h1 ! b)) \<and>
           n_value (heap s' ! arr) = JArr (map (\<lambda>x. n_value (heap s ! x)) l') \<and>
           status_ok (heap s' ! arr) \<and> \<not> n_pristine (heap s' ! arr) \<and>
           emitted s' = emitted s @ map (\<lambda>x. (x, n_value (heap s' ! x))) (arr # ps)"
proof -
  let ?s1 = "s\<lparr>heap := h1\<rparr>"
  have arr: "arr < length (heap s)" using chain_allocated[OF ch] by simp
  have notin: "arr \<notin> set ps" by (rule chain_not_self[OF ch])
  have ch1: "chain (heap ?s1) arr ps"
    using chain_cong_on[OF ch, of h1] len C par by auto
  have "\<forall>x\<in>set ps. n_kind (h1 ! x) = n_kind (heap s ! x)"
  proof
    fix x assume "x \<in> set ps"
    with notin have "x \<noteq> arr" by auto
    then show "n_kind (h1 ! x) = n_kind (heap s ! x)" by (rule kind1)
  qed
  then have "containers (heap ?s1) (arr # ps)"
    using cont k1 by (simp add: containers_def is_container_def list_all_iff)
  from priv_updateValue_chain[OF ch1 this]
  have run: "priv_updateValue V arr ?s1 = Some (Returns (walk V (arr # ps) ?s1))" .
  let ?s' = "walk V (arr # ps) ?s1"
  have agg: "aggregate h1 (n_kind (h1 ! arr)) = Some (JArr (map (\<lambda>x. n_value (heap s ! x)) l'))"
    by (simp add: aggregate_def k1 val)
  have node: "heap ?s' ! arr = heap (recompute V arr ?s1) ! arr"
    using heap_walk_other[OF notin] by simp
  have same: "heap (recompute V arr ?s1) ! arr =
      (h1 ! arr)\<lparr>n_value := JArr (map (\<lambda>x. n_value (heap s ! x)) l'),
         n_errors := V (n_validator (h1 ! arr)) (modify arr (\<lambda>n. n\<lparr>n_value := JArr (map (\<lambda>x. n_value (heap s ! x)) l')\<rparr>) h1) arr,
         n_status := status_of (V (n_validator (h1 ! arr)) (modify arr (\<lambda>n. n\<lparr>n_value := JArr (map (\<lambda>x. n_value (heap s ! x)) l')\<rparr>) h1) arr),
         n_pristine := False\<rparr>"
    using nth_heap_recompute_same[of arr ?s1 _ V] arr len agg by simp
  have "emitted ?s' = emitted ?s1 @ map (\<lambda>x. (x, n_value (heap ?s' ! x))) (arr # ps)"
    by (rule emitted_walk) (rule chain_distinct[OF ch])
  moreover have "n_kind (heap ?s' ! arr) = ControlArray l'" by (simp add: k1)
  moreover have "\<forall>b. n_parent (heap ?s' ! b) = n_parent (h1 ! b)" by simp
  moreover have "n_value (heap ?s' ! arr) = JArr (map (\<lambda>x. n_value (heap s ! x)) l')"
    unfolding node same by simp
  moreover have "status_ok (heap ?s' ! arr)" unfolding node same by (simp add: status_ok_def)
  moreover have "\<not> n_pristine (heap ?s' ! arr)" unfolding node same by simp
  ultimately show ?thesis using run by simp
qed


text \<open>
  A container that is its own parent: \<^verbatim>\<open>_updateValue\<close> and \<^verbatim>\<open>_updateParent\<close> call each other
  without end. This is the store in which \<^verbatim>\<open>push\<close> of the container into itself calls
  \<^verbatim>\<open>_updateValue\<close>.
\<close>

lemma priv_updateValue_self_parent:
  assumes "a < length (heap s)" "n_parent (heap s ! a) = Some a" "is_container (n_kind (heap s ! a))"
  shows "priv_updateValue V a s = None"
proof (rule ccontr)
  assume "priv_updateValue V a s \<noteq> None"
  then obtain r where run: "priv_updateValue V a s = Some r" by auto
  have "a < length (heap s) \<and> n_parent (heap s ! a) = Some a \<and> is_container (n_kind (heap s ! a))
      \<longrightarrow> False"
  proof (rule priv_updateValue.raw_induct[where P = "\<lambda>V a s r.
      a < length (heap s) \<and> n_parent (heap s ! a) = Some a \<and> is_container (n_kind (heap s ! a))
      \<longrightarrow> False", OF _ run])
    fix f V a s r
    assume IH: "\<And>V a s r. f V a s = Some r \<Longrightarrow>
        a < length (heap s) \<and> n_parent (heap s ! a) = Some a \<and> is_container (n_kind (heap s ! a))
        \<longrightarrow> False"
      and body: "(if a < length (heap s) \<and> is_container (n_kind (heap s ! a)) then
          (let s3 = recompute V a s in
           case n_parent (heap s3 ! a) of None \<Rightarrow> Some (Returns s3) | Some p \<Rightarrow> f V p s3)
        else Some (Raises TypeError s)) = Some r"
    show "a < length (heap s) \<and> n_parent (heap s ! a) = Some a \<and> is_container (n_kind (heap s ! a))
        \<longrightarrow> False"
    proof
      assume h: "a < length (heap s) \<and> n_parent (heap s ! a) = Some a \<and> is_container (n_kind (heap s ! a))"
      with body have "f V a (recompute V a s) = Some r" by (simp add: Let_def)
      from IH[OF this] h show False by simp
    qed
  qed
  with assms show False by simp
qed

lemma push_into_itself_does_not_return:
  assumes "arr < length (heap s)" "n_kind (heap s ! arr) = ControlArray l"
  shows "exec V (Push arr arr) s = None"
proof -
  let ?h1 = "setParent arr arr (modify arr (set_list (l @ [arr])) (heap s))"
  have "priv_updateValue V arr (s\<lparr>heap := ?h1\<rparr>) = None"
    using assms
    by (intro priv_updateValue_self_parent)
       (simp_all add: nth_setParent nth_modify set_list_kind is_container_def)
  with assms show ?thesis by (simp add: exec_def refs_of_def push_def Let_def)
qed

text \<open>
  Claim C8, as the code has it. On a keyed container whose children object has the
  ordinary prototype, \<^verbatim>\<open>addControl(name, c)\<close> with a name other than \<^verbatim>\<open>__proto__\<close> stores \<open>c\<close>
  under \<open>name\<close> (replacing an entry of that name), and \<^verbatim>\<open>removeControl(name)\<close> deletes the
  entry; whatever the name and the prototype, the two change nothing but the child
  storage: value, status, errors, pristine flag, parent and validator of every object and
  the log of emissions are as before. On an indexed container whose ancestors are finitely
  many containers, \<^verbatim>\<open>push\<close> and \<^verbatim>\<open>insert\<close> of a child that is neither the container nor one
  of its ancestors return, have put the child into the list, have made the container the
  parent of the child and of no other object, and have recomputed: the value of the
  container is the list of the values of its children, its status is derived from its
  errors, it is not pristine, and the container and its ancestors have emitted their
  values in this order. \<^verbatim>\<open>removeAt\<close> returns, has removed the position from the list and has
  recomputed in the same way, and it leaves every parent reference as it was: the removed
  child keeps the container as parent. (\<^verbatim>\<open>push\<close> of a container into itself does not return,
  lemma \<open>push_into_itself_does_not_return\<close>.)
\<close>

theorem structural_changes:
  "(g < length (heap s) \<and> c < length (heap s) \<and> n_kind (heap s ! g) = ControlGroup cs os \<and>
    n_controls_proto (heap s ! g) = None \<and> name \<noteq> ''__proto__'' \<longrightarrow>
      exec V (AddControl g name c) s =
        Some (Returns (s\<lparr>heap := (heap s)[g := (heap s ! g)\<lparr>n_kind := ControlGroup (AList.update name c cs) os\<rparr>]\<rparr>)) \<and>
      map_of (AList.update name c cs) = (map_of cs)(name \<mapsto> c)) \<and>
   (g < length (heap s) \<and> n_kind (heap s ! g) = ControlGroup cs os \<longrightarrow>
      exec V (RemoveControl g name) s =
        Some (Returns (s\<lparr>heap := (heap s)[g := (heap s ! g)\<lparr>n_kind := ControlGroup (AList.delete name cs) os\<rparr>]\<rparr>)) \<and>
      map_of (AList.delete name cs) = (map_of cs)(name := None)) \<and>
   (exec V (AddControl g name c) s = Some r \<or> exec V (RemoveControl g name) s = Some r \<longrightarrow>
      emitted (state_of r) = emitted s \<and>
      (\<forall>b. n_value (heap (state_of r) ! b) = n_value (heap s ! b) \<and>
           n_status (heap (state_of r) ! b) = n_status (heap s ! b) \<and>
           n_errors (heap (state_of r) ! b) = n_errors (heap s ! b) \<and>
           n_pristine (heap (state_of r) ! b) = n_pristine (heap s ! b) \<and>
           n_parent (heap (state_of r) ! b) = n_parent (heap s ! b))) \<and>
   (n_kind (heap s ! arr) = ControlArray l \<and> chain (heap s) arr ps \<and> containers (heap s) ps \<and>
    c < length (heap s) \<and> c \<notin> set (arr # ps) \<and>
    (x = Push arr c \<and> l' = l @ [c] \<or> x = Insert arr i c \<and> l' = ListWrapper_insert l i c) \<longrightarrow>
      (\<exists>s'. exec V x s = Some (Returns s') \<and>
         n_kind (heap s' ! arr) = ControlArray l' \<and>
         n_parent (heap s' ! c) = Some arr \<and>
         (\<forall>b. b \<noteq> c \<longrightarrow> n_parent (heap s' ! b) = n_parent (heap s ! b)) \<and>
         n_value (heap s' ! arr) = JArr (map (\<lambda>x. n_value (heap s ! x)) l') \<and>
         status_ok (heap s' ! arr) \<and> \<not> n_pristine (heap s' ! arr) \<and>
         emitted s' = emitted s @ map (\<lambda>x. (x, n_value (heap s' ! x))) (arr # ps))) \<and>
   (n_kind (heap s ! arr) = ControlArray l \<and> chain (heap s) arr ps \<and> containers (heap s) ps \<longrightarrow>
      (\<exists>s'. exec V (RemoveAt arr i) s = Some (Returns s') \<and>
         n_kind (heap s' ! arr) = ControlArray (ListWrapper_removeAt l i) \<and>
         (\<forall>b. n_parent (heap s' ! b) = n_parent (heap s ! b)) \<and>
         n_value (heap s' ! arr) = JArr (map (\<lambda>x. n_value (heap s ! x)) (ListWrapper_removeAt l i)) \<and>
         status_ok (heap s' ! arr) \<and> \<not> n_pristine (heap s' ! arr) \<and>
         emitted s' = emitted s @ map (\<lambda>x. (x, n_value (heap s' ! x))) (arr # ps)))"
proof (intro conjI impI)
  assume h: "g < length (heap s) \<and> c < length (heap s) \<and> n_kind (heap s ! g) = ControlGroup cs os \<and>
    n_controls_proto (heap s ! g) = None \<and> name \<noteq> ''__proto__''"
  then have eq: "(heap s ! g)\<lparr>n_kind := ControlGroup (AList.update name c cs) os, n_controls_proto := None\<rparr> =
      (heap s ! g)\<lparr>n_kind := ControlGroup (AList.update name c cs) os\<rparr>"
    by (cases "heap s ! g") simp
  from h show "exec V (AddControl g name c) s =
        Some (Returns (s\<lparr>heap := (heap s)[g := (heap s ! g)\<lparr>n_kind := ControlGroup (AList.update name c cs) os\<rparr>]\<rparr>))"
    by (simp add: exec_def refs_of_def addControl_def controls_assign_def modify_def set_controls_def eq)
  show "map_of (AList.update name c cs) = (map_of cs)(name \<mapsto> c)"
    by (rule update_conv')
next
  assume h: "g < length (heap s) \<and> n_kind (heap s ! g) = ControlGroup cs os"
  then show "exec V (RemoveControl g name) s =
        Some (Returns (s\<lparr>heap := (heap s)[g := (heap s ! g)\<lparr>n_kind := ControlGroup (AList.delete name cs) os\<rparr>]\<rparr>))"
    by (simp add: exec_def refs_of_def removeControl_def modify_def set_controls_def StringMap_delete_def)
  show "map_of (AList.delete name cs) = (map_of cs)(name := None)"
    by (rule delete_conv')
next
  assume "exec V (AddControl g name c) s = Some r \<or> exec V (RemoveControl g name) s = Some r"
  then have "addControl g name c s = Some r \<or> removeControl g name s = Some r \<or> r = Raises TypeError s"
    by (auto simp: exec_def split: if_splits)
  then have fr: "emitted (state_of r) = emitted s \<and>
     (\<forall>b. n_value (heap (state_of r) ! b) = n_value (heap s ! b) \<and>
          n_status (heap (state_of r) ! b) = n_status (heap s ! b) \<and>
          n_errors (heap (state_of r) ! b) = n_errors (heap s ! b) \<and>
          n_pristine (heap (state_of r) ! b) = n_pristine (heap s ! b) \<and>
          n_parent (heap (state_of r) ! b) = n_parent (heap s ! b))"
    using group_storage_frame[of g name c s r] by auto
  then show "emitted (state_of r) = emitted s" by simp
  from fr show "\<forall>b. n_value (heap (state_of r) ! b) = n_value (heap s ! b) \<and>
          n_status (heap (state_of r) ! b) = n_status (heap s ! b) \<and>
          n_errors (heap (state_of r) ! b) = n_errors (heap s ! b) \<and>
          n_pristine (heap (state_of r) ! b) = n_pristine (heap s ! b) \<and>
          n_parent (heap (state_of r) ! b) = n_parent (heap s ! b)" by simp
next
  assume h: "n_kind (heap s ! arr) = ControlArray l \<and> chain (heap s) arr ps \<and> containers (heap s) ps \<and>
    c < length (heap s) \<and> c \<notin> set (arr # ps) \<and>
    (x = Push arr c \<and> l' = l @ [c] \<or> x = Insert arr i c \<and> l' = ListWrapper_insert l i c)"
  then have kind: "n_kind (heap s ! arr) = ControlArray l" and ch: "chain (heap s) arr ps"
    and cont: "containers (heap s) ps" and c: "c < length (heap s)" "c \<notin> set (arr # ps)" by simp_all
  have arr: "arr < length (heap s)" using chain_allocated[OF ch] by simp
  let ?h1 = "setParent c arr (modify arr (set_list l') (heap s))"
  have ex: "exec V x s = priv_updateValue V arr (s\<lparr>heap := ?h1\<rparr>)"
    using h arr by (auto simp: exec_def refs_of_def push_def insert_control_def Let_def)
  have "\<exists>s'. priv_updateValue V arr (s\<lparr>heap := ?h1\<rparr>) = Some (Returns s') \<and>
           n_kind (heap s' ! arr) = ControlArray l' \<and>
           (\<forall>b. n_parent (heap s' ! b) = n_parent (?h1 ! b)) \<and>
           n_value (heap s' ! arr) = JArr (map (\<lambda>x. n_value (heap s ! x)) l') \<and>
           status_ok (heap s' ! arr) \<and> \<not> n_pristine (heap s' ! arr) \<and>
           emitted s' = emitted s @ map (\<lambda>x. (x, n_value (heap s' ! x))) (arr # ps)"
    using c arr kind
    by (intro array_walk[OF kind ch cont, where C = "{c}"])
       (auto simp: nth_setParent nth_modify set_list_kind)
  then obtain s' where s': "priv_updateValue V arr (s\<lparr>heap := ?h1\<rparr>) = Some (Returns s')"
      "n_kind (heap s' ! arr) = ControlArray l'"
      "\<forall>b. n_parent (heap s' ! b) = n_parent (?h1 ! b)"
      "n_value (heap s' ! arr) = JArr (map (\<lambda>x. n_value (heap s ! x)) l')"
      "status_ok (heap s' ! arr)" "\<not> n_pristine (heap s' ! arr)"
      "emitted s' = emitted s @ map (\<lambda>x. (x, n_value (heap s' ! x))) (arr # ps)"
    by blast
  have "n_parent (heap s' ! c) = Some arr" using s'(3) c by (simp add: nth_setParent)
  moreover have "\<forall>b. b \<noteq> c \<longrightarrow> n_parent (heap s' ! b) = n_parent (heap s ! b)"
    using s'(3) by (simp add: nth_setParent nth_modify)
  ultimately show "\<exists>s'. exec V x s = Some (Returns s') \<and>
         n_kind (heap s' ! arr) = ControlArray l' \<and>
         n_parent (heap s' ! c) = Some arr \<and>
         (\<forall>b. b \<noteq> c \<longrightarrow> n_parent (heap s' ! b) = n_parent (heap s ! b)) \<and>
         n_value (heap s' ! arr) = JArr (map (\<lambda>x. n_value (heap s ! x)) l') \<and>
         status_ok (heap s' ! arr) \<and> \<not> n_pristine (heap s' ! arr) \<and>
         emitted s' = emitted s @ map (\<lambda>x. (x, n_value (heap s' ! x))) (arr # ps)"
    using ex s'(1,2,4-7) by auto
next
  assume h: "n_kind (heap s ! arr) = ControlArray l \<and> chain (heap s) arr ps \<and> containers (heap s) ps"
  then have kind: "n_kind (heap s ! arr) = ControlArray l" and ch: "chain (heap s) arr ps"
    and cont: "containers (heap s) ps" by simp_all
  have arr: "arr < length (heap s)" using chain_allocated[OF ch] by simp
  let ?l' = "ListWrapper_removeAt l i"
  let ?h1 = "modify arr (set_list ?l') (heap s)"
  have ex: "exec V (RemoveAt arr i) s = priv_updateValue V arr (s\<lparr>heap := ?h1\<rparr>)"
    using kind arr by (simp add: exec_def refs_of_def removeAt_def Let_def)
  have "\<exists>s'. priv_updateValue V arr (s\<lparr>heap := ?h1\<rparr>) = Some (Returns s') \<and>
           n_kind (heap s' ! arr) = ControlArray ?l' \<and>
           (\<forall>b. n_parent (heap s' ! b) = n_parent (?h1 ! b)) \<and>
           n_value (heap s' ! arr) = JArr (map (\<lambda>x. n_value (heap s ! x)) ?l') \<and>
           status_ok (heap s' ! arr) \<and> \<not> n_pristine (heap s' ! arr) \<and>
           emitted s' = emitted s @ map (\<lambda>x. (x, n_value (heap s' ! x))) (arr # ps)"
    using arr kind
    by (intro array_walk[OF kind ch cont, where C = "{}"])
       (auto simp: nth_modify set_list_kind)
  then show "\<exists>s'. exec V (RemoveAt arr i) s = Some (Returns s') \<and>
         n_kind (heap s' ! arr) = ControlArray ?l' \<and>
         (\<forall>b. n_parent (heap s' ! b) = n_parent (heap s ! b)) \<and>
         n_value (heap s' ! arr) = JArr (map (\<lambda>x. n_value (heap s ! x)) ?l') \<and>
         status_ok (heap s' ! arr) \<and> \<not> n_pristine (heap s' ! arr) \<and>
         emitted s' = emitted s @ map (\<lambda>x. (x, n_value (heap s' ! x))) (arr # ps)"
    unfolding ex by (auto simp: nth_modify)
qed


theorem structural_changes_witness:
  "exec std_validators (AddControl 1 ''y'' 0) tree3 =
     Some (Returns (tree3\<lparr>heap := (heap tree3)[1 := (heap tree3 ! 1)\<lparr>n_kind :=
        ControlGroup [(''x'', 0), (''y'', 0)] []\<rparr>]\<rparr>)) \<and>
   exec std_validators (RemoveControl 1 ''x'') tree3 =
     Some (Returns (tree3\<lparr>heap := (heap tree3)[1 := (heap tree3 ! 1)\<lparr>n_kind :=
        ControlGroup [] []\<rparr>]\<rparr>)) \<and>
   n_value (heap tree3 ! 1) = JObj [(''x'', JNum 1)] \<and>
   n_parent (heap tree3 ! 0) = Some 1 \<and>
   exec std_validators (Push 2 3) scenario_D = Some (Returns scenario_D_pushed) \<and>
   exec std_validators (Insert 2 0 3) scenario_D = Some (Returns scenario_D_inserted) \<and>
   exec std_validators (RemoveAt 2 0) scenario_D = Some (Returns scenario_D_removed) \<and>
   n_parent (heap scenario_D ! 3) = None \<and>
   n_parent (heap scenario_D_pushed ! 3) = Some 2 \<and>
   n_parent (heap scenario_D_inserted ! 3) = Some 2 \<and>
   n_kind (heap scenario_D_inserted ! 2) = ControlArray [3, 0, 1] \<and>
   n_value (heap scenario_D_inserted ! 2) = JArr [JNum 3, JNum 1, JNum 2] \<and>
   n_kind (heap scenario_D_removed ! 2) = ControlArray [1] \<and>
   n_value (heap scenario_D_removed ! 2) = JArr [JNum 2] \<and>
   n_pristine (heap scenario_D ! 2) \<and>
   \<not> n_pristine (heap scenario_D_pushed ! 2) \<and>
   \<not> n_pristine (heap scenario_D_removed ! 2) \<and>
   emitted scenario_D_pushed = emitted scenario_D @ [(2, JArr [JNum 1, JNum 2, JNum 3])] \<and>
   emitted scenario_D_removed = emitted scenario_D @ [(2, JArr [JNum 2])]"
  using structural_changes[where g = 1 and s = tree3 and c = 0 and cs = "[(''x'', 0)]" and os = "[]"
      and V = std_validators and name = "''y''" and arr = 0 and l = "[]" and ps = "[]"
      and x = "Push 0 0" and l' = "[]" and i = 0
      and r = "Returns (tree3\<lparr>heap := (heap tree3)[1 := (heap tree3 ! 1)\<lparr>n_kind :=
        ControlGroup [(''x'', 0), (''y'', 0)] []\<rparr>]\<rparr>)"]
    structural_changes[where g = 1 and s = tree3 and c = 0 and cs = "[(''x'', 0)]" and os = "[]"
      and V = std_validators and name = "''x''" and arr = 0 and l = "[]" and ps = "[]"
      and x = "Push 0 0" and l' = "[]" and i = 0
      and r = "Returns (tree3\<lparr>heap := (heap tree3)[1 := (heap tree3 ! 1)\<lparr>n_kind :=
        ControlGroup [] []\<rparr>]\<rparr>)"]
    structural_changes[where g = 2 and s = scenario_D and c = 3 and cs = "[]" and os = "[]"
      and V = std_validators and name = "''y''" and arr = 2 and l = "[0, 1]" and ps = "[]"
      and x = "Push 2 3" and l' = "[0, 1, 3]" and i = 0 and r = "Raises TypeError scenario_D"]
    structural_changes[where g = 2 and s = scenario_D and c = 3 and cs = "[]" and os = "[]"
      and V = std_validators and name = "''y''" and arr = 2 and l = "[0, 1]" and ps = "[]"
      and x = "Insert 2 0 3" and l' = "[3, 0, 1]" and i = 0 and r = "Raises TypeError scenario_D"]
  by (simp add: tree3_def scenario_D_def scenario_D_pushed_def scenario_D_inserted_def
      scenario_D_removed_def controls_assign_def eval_defs)

text \<open>
  Claim C8 reads \<^verbatim>\<open>addControl\<close> as an insertion under every name and lets \<^verbatim>\<open>removeAt\<close>
  re-parent. In the store \<open>spare\<close>, \<^verbatim>\<open>addControl("__proto__", c)\<close> with the further leaf
  returns and the container has the children it had: no child is stored under the name,
  the leaf has become the prototype of the children object. In scenario D,
  \<^verbatim>\<open>removeAt(0)\<close> returns, the first leaf is no longer in the list, and its parent is the
  container as before.
\<close>

theorem addControl_proto_and_removeAt_parent:
  "exec std_validators (AddControl 1 ''__proto__'' 2) spare = Some (Returns spare_proto) \<and>
   n_kind (heap spare_proto ! 1) = ControlGroup [(''a'', 0)] [] \<and>
   \<not> contains (heap spare_proto) 1 ''__proto__'' \<and>
   n_controls_proto (heap spare_proto ! 1) = Some 2 \<and>
   exec std_validators (RemoveAt 2 0) scenario_D = Some (Returns scenario_D_removed) \<and>
   n_kind (heap scenario_D ! 2) = ControlArray [0, 1] \<and>
   n_kind (heap scenario_D_removed ! 2) = ControlArray [1] \<and>
   n_parent (heap scenario_D ! 0) = Some 2 \<and>
   n_parent (heap scenario_D_removed ! 0) = Some 2"
  by (simp add: spare_def spare_proto_def scenario_D_def scenario_D_removed_def controls_assign_def
      contains_def eval_defs)

section \<open>Upward consistency after a mutation\<close>




text \<open>
  The containers that hold the object of the mutation have to be its parents. A leaf that
  two keyed containers hold has the second as parent; \<^verbatim>\<open>updateValue\<close> on the leaf recomputes
  the second and leaves the first with the value it had.
\<close>

lemma shared_leaf_stale:
  "run std_validators shared_ops init_state = Some shared \<and>
   exec std_validators (UpdateValue 0 (JNum 5)) shared = Some (Returns shared_updated) \<and>
   \<not> linked (heap shared) 0 \<and>
   n_value (heap shared_updated ! 1) = JObj [(''a'', JNum 1)] \<and>
   spec_aggregate (heap shared_updated) (n_kind (heap shared_updated ! 1)) = Some (JObj [(''a'', JNum 5)]) \<and>
   \<not> consistent_at (heap shared_updated) 1"
  by (simp add: shared_ops_def shared_def shared_updated_def path_defs eval_defs)

lemma dirty_validators_not_local: "\<not> local_validators dirty_validators"
proof
  assume "local_validators dirty_validators"
  from local_validatorsD[OF this, of "heap dirty_tree" 0
      "modify 0 (\<lambda>n. n\<lparr>n_pristine := False\<rparr>) (heap dirty_tree)" "Custom 0"]
  show False
    by (simp add: view_def dirty_tree_def dirty_validators_def children_of_def modify_def)
qed

section \<open>Excluding and including a child of a keyed container\<close>

text \<open>
  Claim C5. The validity half of the claim is about the validator of the group, which is
  not part of the file: it is \<open>GroupValidator\<close> of \<open>std_validators\<close>, modelled from section
  4.3 of the specification. In a well-formed tree, for a keyed container \<open>g\<close> with that
  validator and every name, \<^verbatim>\<open>exclude(name)\<close> returns and leaves \<open>g\<close> with the mapping of the
  children that were included and are not \<open>name\<close> as value, and with the status that these
  children alone determine: the entry of \<open>name\<close> is gone and the validity of that child has
  no part in the decision. A following \<^verbatim>\<open>include(name)\<close> returns and leaves \<open>g\<close> with the
  mapping and the status determined by the same children and the child \<open>name\<close>. The
  children themselves are untouched. When \<open>name\<close> was included before, the value after the
  round trip is the value before, and so is the status when it was up to date before.
\<close>

theorem exclude_include_roundtrip:
  assumes ok: "tree_ok (heap s)"
    and kind: "n_kind (heap s ! g) = ControlGroup cs os"
    and vd: "n_validator (heap s ! g) = GroupValidator"
    and d: "distinct (map fst cs)"
    and ch: "chain (heap s) g ps" and co: "containers (heap s) ps"
  shows "\<exists>s1 s2.
     exec std_validators (Exclude g name) s = Some (Returns s1) \<and>
     exec std_validators (Include g name) s1 = Some (Returns s2) \<and>
     n_value (heap s1 ! g) =
       JObj (map (\<lambda>(k, c). (k, n_value (heap s1 ! c)))
              (filter (\<lambda>(k, c). k \<noteq> name \<and> priv_included os k) cs)) \<and>
     n_status (heap s1 ! g) =
       Some (if (\<exists>(k, c)\<in>set cs. k \<noteq> name \<and> priv_included os k \<and> invalid_node (heap s1 ! c))
             then INVALID else VALID) \<and>
     n_value (heap s2 ! g) =
       JObj (map (\<lambda>(k, c). (k, n_value (heap s2 ! c)))
              (filter (\<lambda>(k, c). k = name \<or> priv_included os k) cs)) \<and>
     n_status (heap s2 ! g) =
       Some (if (\<exists>(k, c)\<in>set cs. (k = name \<or> priv_included os k) \<and> invalid_node (heap s2 ! c))
             then INVALID else VALID) \<and>
     (\<forall>(k, c)\<in>set cs. heap s1 ! c = heap s ! c \<and> heap s2 ! c = heap s ! c) \<and>
     (priv_included os name \<longrightarrow> n_value (heap s2 ! g) = n_value (heap s ! g)) \<and>
     (priv_included os name \<and> fresh_at std_validators (heap s) g \<longrightarrow>
        n_status (heap s2 ! g) = n_status (heap s ! g))"
proof -
  let ?V = std_validators
  from ch have g: "g < length (heap s)" by (simp add: chain_allocated)
  have out: "\<forall>c\<in>snd ` set cs. c \<notin> set (g # ps)"
  proof (intro ballI notI)
    fix c assume cs: "c \<in> snd ` set cs" and c: "c \<in> set (g # ps)"
    from cs kind have "c \<in> set (children_of (n_kind (heap s ! g)))"
      by (simp add: children_of_def)
    from tree_okD[OF ok g this] have "n_parent (heap s ! c) = Some g" by simp
    from chain_parent_in[OF ch c this] chain_not_self[OF ch] show False by simp
  qed
  define os1 where "os1 = StringMap_set os name False"
  define os2 where "os2 = StringMap_set os1 name True"
  define s1 where "s1 = walk ?V (g # ps) (s\<lparr>heap := modify g (set_optionals os1) (heap s)\<rparr>)"
  define s2 where "s2 = walk ?V (g # ps) (s1\<lparr>heap := modify g (set_optionals os2) (heap s1)\<rparr>)"
  note t1 = group_toggle[OF ch co kind vd out d, where os' = os1, folded s1_def]
  note t2 = group_toggle[OF t1(5) t1(6) t1(7) t1(8) out d, where os' = os2, folded s2_def]
  have i1: "priv_included os1 k = (k \<noteq> name \<and> priv_included os k)" for k
    by (simp add: os1_def priv_included_set)
  have i2: "priv_included os2 k = (k = name \<or> priv_included os k)" for k
    by (auto simp add: os2_def os1_def priv_included_set)
  have c1: "heap s1 ! c = heap s ! c" if "(k, c) \<in> set cs" for k c
  proof -
    from that have "c \<in> snd ` set cs" by force
    with out have "c \<notin> set (g # ps)" by blast
    from t1(4)[OF this] show ?thesis .
  qed
  have c2: "heap s2 ! c = heap s ! c" if "(k, c) \<in> set cs" for k c
  proof -
    from that have "c \<in> snd ` set cs" by force
    with out have "c \<notin> set (g # ps)" by blast
    from t2(4)[OF this] c1[OF that] show ?thesis by simp
  qed
  have g1: "g < length (heap s1)" using g by (simp add: s1_def del: walk_simps)
  have e1: "exec ?V (Exclude g name) s = Some (Returns s1)"
    using g kind t1(1) by (simp add: exec_def refs_of_def exclude_def os1_def)
  have e2: "exec ?V (Include g name) s1 = Some (Returns s2)"
    using g1 t1(7) t2(1) by (simp add: exec_def refs_of_def include_control_def os2_def)
  have v1: "n_value (heap s1 ! g) =
       JObj (map (\<lambda>(k, c). (k, n_value (heap s1 ! c)))
              (filter (\<lambda>(k, c). k \<noteq> name \<and> priv_included os k) cs))"
  proof -
    have "map (\<lambda>(k, c). (k, n_value (heap s ! c))) (filter (\<lambda>(k, c). priv_included os1 k) cs) =
          map (\<lambda>(k, c). (k, n_value (heap s1 ! c))) (filter (\<lambda>(k, c). k \<noteq> name \<and> priv_included os k) cs)"
      unfolding i1 by (rule map_cong) (auto simp: c1)
    with t1(2) show ?thesis by simp
  qed
  have st1: "n_status (heap s1 ! g) =
       Some (if (\<exists>(k, c)\<in>set cs. k \<noteq> name \<and> priv_included os k \<and> invalid_node (heap s1 ! c))
             then INVALID else VALID)"
  proof -
    have "(\<exists>(k, c)\<in>set cs. priv_included os1 k \<and> invalid_node (heap s ! c)) \<longleftrightarrow>
          (\<exists>(k, c)\<in>set cs. k \<noteq> name \<and> priv_included os k \<and> invalid_node (heap s1 ! c))"
      unfolding i1 using c1 by (intro bex_cong refl) (auto simp: split_def)
    with t1(3) show ?thesis by simp
  qed
  have m2: "map (\<lambda>(k, c). (k, n_value (heap s1 ! c))) (filter (\<lambda>(k, c). priv_included os2 k) cs) =
          map (\<lambda>(k, c). (k, n_value (heap s ! c))) (filter (\<lambda>(k, c). k = name \<or> priv_included os k) cs)"
    unfolding i2 by (rule map_cong) (auto simp: c1)
  have v2: "n_value (heap s2 ! g) =
       JObj (map (\<lambda>(k, c). (k, n_value (heap s2 ! c)))
              (filter (\<lambda>(k, c). k = name \<or> priv_included os k) cs))"
  proof -
    have "map (\<lambda>(k, c). (k, n_value (heap s ! c))) (filter (\<lambda>(k, c). k = name \<or> priv_included os k) cs) =
          map (\<lambda>(k, c). (k, n_value (heap s2 ! c))) (filter (\<lambda>(k, c). k = name \<or> priv_included os k) cs)"
      by (rule map_cong) (auto simp: c2)
    with t2(2) m2 show ?thesis by simp
  qed
  have b2: "(\<exists>(k, c)\<in>set cs. priv_included os2 k \<and> invalid_node (heap s1 ! c)) \<longleftrightarrow>
          (\<exists>(k, c)\<in>set cs. (k = name \<or> priv_included os k) \<and> invalid_node (heap s ! c))"
    unfolding i2 using c1 by (intro bex_cong refl) (auto simp: split_def)
  have st2: "n_status (heap s2 ! g) =
       Some (if (\<exists>(k, c)\<in>set cs. (k = name \<or> priv_included os k) \<and> invalid_node (heap s2 ! c))
             then INVALID else VALID)"
  proof -
    have "(\<exists>(k, c)\<in>set cs. (k = name \<or> priv_included os k) \<and> invalid_node (heap s ! c)) \<longleftrightarrow>
          (\<exists>(k, c)\<in>set cs. (k = name \<or> priv_included os k) \<and> invalid_node (heap s2 ! c))"
      using c2 by (intro bex_cong refl) (auto simp: split_def)
    with t2(3) b2 show ?thesis by simp
  qed
  have ch12: "\<forall>(k, c)\<in>set cs. heap s1 ! c = heap s ! c \<and> heap s2 ! c = heap s ! c"
    using c1 c2 by auto
  have rv: "n_value (heap s2 ! g) = n_value (heap s ! g)" if inc: "priv_included os name"
  proof -
    from inc have "(\<lambda>(k, c). k = name \<or> priv_included os k) = (\<lambda>(k::string, c::addr). priv_included os k)"
      by (auto simp: fun_eq_iff)
    with t2(2) m2 have "n_value (heap s2 ! g) = priv_reduceValue (heap s) cs os"
      by (simp add: priv_reduceValue_distinct[OF d])
    moreover from tree_ok_consistent[OF ok g] kind
    have "n_value (heap s ! g) = priv_reduceValue (heap s) cs os"
      by (simp add: consistent_at_def spec_aggregate_def priv_reduceValue_distinct[OF d]
          priv_included_spec)
    ultimately show ?thesis by simp
  qed
  have rs: "n_status (heap s2 ! g) = n_status (heap s ! g)"
    if inc: "priv_included os name" and fr: "fresh_at std_validators (heap s) g"
  proof -
    from inc have "(\<exists>(k, c)\<in>set cs. (k = name \<or> priv_included os k) \<and> invalid_node (heap s ! c)) \<longleftrightarrow>
        (\<exists>(k, c)\<in>set cs. priv_included os k \<and> invalid_node (heap s ! c))"
      by (intro bex_cong refl) (auto simp: split_def)
    with t2(3) b2 have "n_status (heap s2 ! g) =
        Some (if (\<exists>(k, c)\<in>set cs. priv_included os k \<and> invalid_node (heap s ! c)) then INVALID else VALID)"
      by simp
    moreover from fr vd std_group_invalid[OF kind]
    have "n_status (heap s ! g) =
        Some (if (\<exists>(k, c)\<in>set cs. priv_included os k \<and> invalid_node (heap s ! c)) then INVALID else VALID)"
      by (simp add: fresh_at_def)
    ultimately show ?thesis by simp
  qed
  from e1 e2 v1 st1 v2 st2 ch12 rv rs show ?thesis by blast
qed

theorem exclude_include_roundtrip_witness:
  "run std_validators scenario_B_ops init_state = Some scenario_B \<and>
   tree_ok (heap scenario_B) \<and>
   n_kind (heap scenario_B ! 2) = ControlGroup [(''a'', 0), (''b'', 1)] [] \<and>
   n_validator (heap scenario_B ! 2) = GroupValidator \<and>
   distinct (map fst [(''a'', 0::nat), (''b'', 1)]) \<and>
   chain (heap scenario_B) 2 [] \<and> containers (heap scenario_B) [] \<and>
   n_value (heap scenario_B ! 2) = JObj [(''a'', JNum 1), (''b'', JNull)] \<and>
   n_status (heap scenario_B ! 2) = Some INVALID \<and>
   exec std_validators (Exclude 2 ''b'') scenario_B = Some (Returns scenario_C) \<and>
   n_value (heap scenario_C ! 2) = JObj [(''a'', JNum 1)] \<and>
   n_status (heap scenario_C ! 2) = Some VALID \<and>
   exec std_validators (Include 2 ''b'') scenario_C = Some (Returns scenario_C_included) \<and>
   n_value (heap scenario_C_included ! 2) = JObj [(''a'', JNum 1), (''b'', JNull)] \<and>
   n_status (heap scenario_C_included ! 2) = Some INVALID"
proof -
  have k: "n_kind (heap scenario_B ! 2) = ControlGroup [(''a'', 0), (''b'', 1)] []"
    and v: "n_validator (heap scenario_B ! 2) = GroupValidator"
    and d: "distinct (map fst [(''a'', 0::nat), (''b'', 1)])"
    and c: "chain (heap scenario_B) 2 []" "containers (heap scenario_B) []"
    by (simp_all add: scenario_B_def containers_def)
  have e: "exec std_validators (Exclude 2 ''b'') scenario_B = Some (Returns scenario_C)"
    by (simp add: scenario_B_def scenario_C_def eval_defs)
  have i: "exec std_validators (Include 2 ''b'') scenario_C = Some (Returns scenario_C_included)"
    by (simp add: scenario_C_def scenario_C_included_def eval_defs)
  from exclude_include_roundtrip[OF scenario_B_ok k v d c, of "''b''"]
    scenario_B_built scenario_B_ok k v d c e i
  show ?thesis
    by (simp add: scenario_B_def scenario_C_def scenario_C_included_def VALID_def INVALID_def)
qed

end
